theory Spec2Isabelle
  imports Main "HOL-Library.Char_ord" "HOL-Library.List_Lexorder" "HOL-Library.Multiset"
begin

section \<open>Values handled by the scraper\<close>

text \<open>
  The scraper works on the values that \<^verbatim>\<open>json.loads\<close> returns: \<^verbatim>\<open>None\<close>, booleans,
  integers, strings, lists and dictionaries with string keys. A dictionary is an
  association list in insertion order, as a Python \<^verbatim>\<open>dict\<close> keeps it; lookup and
  assignment act on the first pair with the key, and a parsed dictionary has one pair per
  key. Strings are byte lists (UTF-8); the byte-wise lexicographic order on them
  coincides with Python's code-point order on \<^verbatim>\<open>str\<close>. Fractional numbers (Python
  floats) are outside the value domain of this development: neither their text nor their
  equality with integers is modelled.
\<close>

datatype json =
    JNull
  | JBool bool
  | JInt int
  | JStr string
  | JList "json list"
  | JDict "(string \<times> json) list"

type_synonym dict = "(string \<times> json) list"

text \<open>The exceptions that the modelled code can raise or receive from a collaborator.\<close>

datatype exn =
    TypeError
  | AttributeError
  | KeyError
  | JSONDecodeError
  | NoStationData
  | CsrfTokenNotFound
  | DriverError
  | IOError

subsection \<open>Dictionary operations\<close>

text \<open>\<^verbatim>\<open>k in d\<close>, \<^verbatim>\<open>d.get(k)\<close>, \<^verbatim>\<open>d[k] = v\<close> and \<^verbatim>\<open>del d[k]\<close> on an insertion-ordered
  dictionary: assignment to an existing key keeps the key's position, assignment to a new
  key appends it.\<close>

definition dict_has :: "dict \<Rightarrow> string \<Rightarrow> bool" where
  "dict_has d k = (map_of d k \<noteq> None)"

definition dict_get :: "dict \<Rightarrow> string \<Rightarrow> json" where
  "dict_get d k = (case map_of d k of None \<Rightarrow> JNull | Some v \<Rightarrow> v)"

fun dict_set :: "string \<Rightarrow> json \<Rightarrow> dict \<Rightarrow> dict" where
  "dict_set k v [] = [(k, v)]"
| "dict_set k v (p # ps) = (if fst p = k then (k, v) # ps else p # dict_set k v ps)"

fun dict_del :: "string \<Rightarrow> dict \<Rightarrow> dict" where
  "dict_del k [] = []"
| "dict_del k (p # ps) = (if fst p = k then ps else p # dict_del k ps)"

subsection \<open>Python's dynamic operations on JSON values\<close>

text \<open>Truth value of a JSON value (\<^verbatim>\<open>bool(v)\<close>).\<close>

fun py_truthy :: "json \<Rightarrow> bool" where
  "py_truthy JNull = False"
| "py_truthy (JBool b) = b"
| "py_truthy (JInt i) = (i \<noteq> 0)"
| "py_truthy (JStr s) = (s \<noteq> [])"
| "py_truthy (JList xs) = (xs \<noteq> [])"
| "py_truthy (JDict d) = (d \<noteq> [])"

text \<open>\<^verbatim>\<open>a or b\<close>.\<close>

definition py_or :: "json \<Rightarrow> json \<Rightarrow> json" where
  "py_or a b = (if py_truthy a then a else b)"

text \<open>Substring test, \<^verbatim>\<open>p in s\<close> for two strings.\<close>

fun starts_with :: "string \<Rightarrow> string \<Rightarrow> bool" where
  "starts_with s [] = True"
| "starts_with [] (c # p) = False"
| "starts_with (a # s) (c # p) = (a = c \<and> starts_with s p)"

fun contains_str :: "string \<Rightarrow> string \<Rightarrow> bool" where
  "contains_str [] p = (p = [])"
| "contains_str (a # s) p = (starts_with (a # s) p \<or> contains_str s p)"

text \<open>\<^verbatim>\<open>k in v\<close> for a string \<open>k\<close>: key test on a dictionary, membership in a list,
  substring test on a string, \<^verbatim>\<open>TypeError\<close> on anything else.\<close>

fun py_in :: "string \<Rightarrow> json \<Rightarrow> exn + bool" where
  "py_in k (JDict d) = Inr (dict_has d k)"
| "py_in k (JList xs) = Inr (JStr k \<in> set xs)"
| "py_in k (JStr s) = Inr (contains_str s k)"
| "py_in k v = Inl TypeError"

text \<open>\<^verbatim>\<open>v[k]\<close> for a string \<open>k\<close>.\<close>

fun py_getitem :: "json \<Rightarrow> string \<Rightarrow> exn + json" where
  "py_getitem (JDict d) k = (case map_of d k of None \<Rightarrow> Inl KeyError | Some v \<Rightarrow> Inr v)"
| "py_getitem v k = Inl TypeError"

text \<open>\<^verbatim>\<open>for x in v\<close>: the elements of a list, the keys of a dictionary, the characters of a
  string; other values are not iterable. Python yields one string per code point where
  the list below has one per byte; the loop that iterates only tests whether such a
  one-character string contains \<^verbatim>\<open>station\<close>, which it never does.\<close>

fun py_iter :: "json \<Rightarrow> exn + json list" where
  "py_iter (JList xs) = Inr xs"
| "py_iter (JDict d) = Inr (map (\<lambda>p. JStr (fst p)) d)"
| "py_iter (JStr s) = Inr (map (\<lambda>c. JStr [c]) s)"
| "py_iter v = Inl TypeError"

text \<open>Dictionary keys. Lists and dictionaries are unhashable; \<^verbatim>\<open>True\<close> and \<^verbatim>\<open>1\<close> (and
  \<^verbatim>\<open>False\<close> and \<^verbatim>\<open>0\<close>) are the same key.\<close>

datatype key = KNone | KInt int | KStr string

fun py_hash :: "json \<Rightarrow> key option" where
  "py_hash JNull = Some KNone"
| "py_hash (JBool b) = Some (KInt (if b then 1 else 0))"
| "py_hash (JInt i) = Some (KInt i)"
| "py_hash (JStr s) = Some (KStr s)"
| "py_hash (JList xs) = None"
| "py_hash (JDict d) = None"

section \<open>Station Aggregator: \<^verbatim>\<open>extract_station_data\<close>\<close>

text \<open>\<^verbatim>\<open>all_stations_dict\<close>: station records keyed by identity, in insertion order.\<close>

type_synonym stations = "(key \<times> dict) list"

text \<open>\<^verbatim>\<open>all_stations_dict[station_id]['chargepoints'].append(cp)\<close>. The state is returned
  together with the exception raised, if any.\<close>

fun append_cp :: "key \<Rightarrow> json \<Rightarrow> stations \<Rightarrow> stations \<times> exn option" where
  "append_cp k cp [] = ([], Some KeyError)"
| "append_cp k cp ((k', r) # rest) =
     (if k' = k then
        (case map_of r ''chargepoints'' of
           None \<Rightarrow> ((k', r) # rest, Some KeyError)
         | Some (JList xs) \<Rightarrow> ((k', dict_set ''chargepoints'' (JList (xs @ [cp])) r) # rest, None)
         | Some _ \<Rightarrow> ((k', r) # rest, Some AttributeError))
      else (case append_cp k cp rest of (rest', e) \<Rightarrow> ((k', r) # rest', e)))"

text \<open>The body of the loop over \<^verbatim>\<open>json_data['props']['chargepoints']\<close> (lines 177 to 189).
  \<^verbatim>\<open>station.get\<close> exists only on a dictionary: any other value raises \<^verbatim>\<open>AttributeError\<close>.\<close>

definition add_chargepoint :: "stations \<Rightarrow> json \<Rightarrow> stations \<times> exn option" where
  "add_chargepoint d cp =
     (case py_in ''station'' cp of
        Inl e \<Rightarrow> (d, Some e)
      | Inr False \<Rightarrow> (d, None)
      | Inr True \<Rightarrow>
          (case py_getitem cp ''station'' of
             Inl e \<Rightarrow> (d, Some e)
           | Inr station \<Rightarrow>
               (case station of
                  JDict sd \<Rightarrow>
                    (let station_id = py_or (dict_get sd ''id'') (dict_get sd ''station_id'') in
                     if \<not> py_truthy station_id then (d, None)
                     else
                       (case py_hash station_id of
                          None \<Rightarrow> (d, Some TypeError)
                        | Some k \<Rightarrow>
                            (let d' = (if map_of d k = None
                                       then d @ [(k, dict_set ''chargepoints'' (JList []) sd)]
                                       else d)
                             in append_cp k cp d')))
                | _ \<Rightarrow> (d, Some AttributeError))))"

text \<open>The \<^verbatim>\<open>for cp in ...\<close> loop: an exception leaves the loop, keeping what was stored.\<close>

fun add_all :: "stations \<Rightarrow> json list \<Rightarrow> stations \<times> exn option" where
  "add_all d [] = (d, None)"
| "add_all d (cp # cps) =
     (case add_chargepoint d cp of
        (d', Some e) \<Rightarrow> (d', Some e)
      | (d', None) \<Rightarrow> add_all d' cps)"

text \<open>Lines 172 to 176: the payload test and the iteration the loop runs over. A payload
  that fails the test gives no entries; the test, the subscription and the iteration can
  raise.\<close>

definition payload_entries :: "json \<Rightarrow> exn + json list" where
  "payload_entries json_data =
     (case json_data of
        JDict obj \<Rightarrow>
          (case map_of obj ''props'' of
             None \<Rightarrow> Inr []
           | Some props \<Rightarrow>
               (case py_in ''chargepoints'' props of
                  Inl e \<Rightarrow> Inl e
                | Inr False \<Rightarrow> Inr []
                | Inr True \<Rightarrow>
                    (case py_getitem props ''chargepoints'' of
                       Inl e \<Rightarrow> Inl e
                     | Inr cps \<Rightarrow> py_iter cps)))
      | _ \<Rightarrow> Inr [])"

text \<open>
  Lines 154 to 170: the body is decompressed with gzip, else with brotli when the module is
  installed, else taken as it is; the text is then parsed. The decompressors, the lenient
  UTF-8 decoder and \<^verbatim>\<open>json.loads\<close> are library functions and are parameters here: a
  decompressor that raises returns \<open>None\<close>, an absent brotli module is \<open>None\<close>, and the
  parser returns the exception it raises.
\<close>

type_synonym bytes = "char list"

record codec =
  gzip_decompress :: "bytes \<Rightarrow> bytes option"
  brotli :: "(bytes \<Rightarrow> bytes option) option"
  utf8_decode :: "bytes \<Rightarrow> string"
  json_loads :: "string \<Rightarrow> exn + json"

definition decode_body :: "codec \<Rightarrow> bytes \<Rightarrow> string" where
  "decode_body c raw_bytes =
     (case gzip_decompress c raw_bytes of
        Some decompressed \<Rightarrow> utf8_decode c decompressed
      | None \<Rightarrow>
          (case brotli c of
             Some brotli_decompress \<Rightarrow>
               (case brotli_decompress raw_bytes of
                  Some decompressed \<Rightarrow> utf8_decode c decompressed
                | None \<Rightarrow> utf8_decode c raw_bytes)
           | None \<Rightarrow> utf8_decode c raw_bytes))"

text \<open>Lines 154 to 176 for one response body: decoding, parsing and the payload's
  entries.\<close>

definition response_entries :: "codec \<Rightarrow> bytes \<Rightarrow> exn + json list" where
  "response_entries c raw_bytes =
     (case json_loads c (decode_body c raw_bytes) of
        Inl e \<Rightarrow> Inl e
      | Inr json_data \<Rightarrow> payload_entries json_data)"

text \<open>The \<^verbatim>\<open>try\<close> block of lines 153 to 189 for one response body.\<close>

definition process_response :: "codec \<Rightarrow> stations \<Rightarrow> bytes \<Rightarrow> stations \<times> exn option" where
  "process_response c d raw_bytes =
     (case response_entries c raw_bytes of
        Inl e \<Rightarrow> (d, Some e)
      | Inr entries \<Rightarrow> add_all d entries)"

text \<open>An intercepted network exchange, as far as the scraper reads it: whether a response
  exists, the URL, the response's \<^verbatim>\<open>Content-Type\<close> header (empty when absent) and the body.\<close>

record request =
  has_response :: bool
  url :: string
  content_type :: string
  body :: bytes

definition is_station_response :: "request \<Rightarrow> bool" where
  "is_station_response r =
     (has_response r \<and> url r = ''https://evindustry.ph/evcs-locations'' \<and>
      contains_str (content_type r) ''application/json'')"

text \<open>Entries of \<^verbatim>\<open>self.error_log\<close>.\<close>

datatype log_entry =
    LogParseError exn
  | LogNoStationData
  | LogCsrfTokenNotFound
  | LogDriverInitFailed exn
  | LogSendinBlueApiError
  | LogEmailError

text \<open>The loop over \<^verbatim>\<open>self.driver.requests\<close> (lines 148 to 194): the state is the station
  mapping and the error log.\<close>

fun scan_requests :: "codec \<Rightarrow> request list \<Rightarrow> stations \<times> log_entry list \<Rightarrow> stations \<times> log_entry list" where
  "scan_requests c [] (d, lg) = (d, lg)"
| "scan_requests c (r # rs) (d, lg) =
     (if is_station_response r then
        (case process_response c d (body r) of
           (d', None) \<Rightarrow> scan_requests c rs (d', lg)
         | (d', Some e) \<Rightarrow> scan_requests c rs (d', lg @ [LogParseError e]))
      else scan_requests c rs (d, lg))"

text \<open>\<^verbatim>\<open>extract_station_data\<close>: the result is the list of station records or the exception
  raised, together with the error log.\<close>

definition extract_station_data ::
    "codec \<Rightarrow> request list \<Rightarrow> log_entry list \<Rightarrow> (exn + dict list) \<times> log_entry list" where
  "extract_station_data c rs lg =
     (case scan_requests c rs ([], lg) of
        (all_stations_dict, lg') \<Rightarrow>
          (let all_stations = map snd all_stations_dict in
           if all_stations = [] then (Inl NoStationData, lg' @ [LogNoStationData])
           else (Inr all_stations, lg')))"

section \<open>Charge-point extraction and Summary Enricher\<close>

text \<open>\<^verbatim>\<open>extract_chargepoints\<close> (lines 219 to 233).\<close>

text \<open>The test of line 225 on the first element.\<close>

definition is_direct :: "json \<Rightarrow> bool" where
  "is_direct c =
     (case c of
        JDict cd \<Rightarrow> dict_has cd ''mode'' \<or> dict_has cd ''id_or_serial_number''
      | _ \<Rightarrow> False)"

text \<open>The loop of lines 228 to 231, with \<^verbatim>\<open>flat\<close> as accumulator.\<close>

fun flatten_wrapped :: "json list \<Rightarrow> json list \<Rightarrow> json list" where
  "flatten_wrapped flat [] = flat"
| "flatten_wrapped flat (item # items) =
     flatten_wrapped
       (case item of
          JDict i \<Rightarrow> (case map_of i ''chargepoints'' of Some (JList ys) \<Rightarrow> flat @ ys | _ \<Rightarrow> flat)
        | _ \<Rightarrow> flat)
       items"

definition extract_chargepoints :: "dict \<Rightarrow> json list" where
  "extract_chargepoints station =
     (case dict_get station ''chargepoints'' of
        JList cps \<Rightarrow>
          (case cps of
             [] \<Rightarrow> []
           | c # _ \<Rightarrow> if is_direct c then cps else flatten_wrapped [] cps)
      | _ \<Rightarrow> [])"

subsection \<open>\<^verbatim>\<open>str\<close>\<close>

text \<open>Decimal digits of an integer.\<close>

definition digit_char :: "nat \<Rightarrow> char" where
  "digit_char n = ''0123456789'' ! (n mod 10)"

function str_nat :: "nat \<Rightarrow> string" where
  "str_nat n = (if n < 10 then [digit_char n] else str_nat (n div 10) @ [digit_char n])"
  by pat_completeness auto
termination
  by (relation "measure (\<lambda>n. n)") auto

declare str_nat.simps [simp del]

definition str_int :: "int \<Rightarrow> string" where
  "str_int i = (if i < 0 then CHR ''-'' # str_nat (nat (- i)) else str_nat (nat i))"

text \<open>\<^verbatim>\<open>str(v)\<close>. The text Python prints for a list or a dictionary (the \<^verbatim>\<open>repr\<close> of its
  elements) is a parameter.\<close>

fun py_str :: "(json \<Rightarrow> string) \<Rightarrow> json \<Rightarrow> string" where
  "py_str container_str JNull = ''None''"
| "py_str container_str (JBool b) = (if b then ''True'' else ''False'')"
| "py_str container_str (JInt i) = str_int i"
| "py_str container_str (JStr s) = s"
| "py_str container_str (JList xs) = container_str (JList xs)"
| "py_str container_str (JDict d) = container_str (JDict d)"

text \<open>\<^verbatim>\<open>sep.join(xs)\<close>.\<close>

fun join :: "string \<Rightarrow> string list \<Rightarrow> string" where
  "join sep [] = []"
| "join sep [x] = x"
| "join sep (x # y # ys) = x @ sep @ join sep (y # ys)"

subsection \<open>The enrichment loop (lines 240 to 273)\<close>

record summary =
  protocols :: "string set"
  modes :: "string set"
  equipments :: "string set"

definition empty_summary :: summary where
  "empty_summary = \<lparr>protocols = {}, modes = {}, equipments = {}\<rparr>"

text \<open>The body of \<^verbatim>\<open>for cp in cps\<close> for a charge-point that is a dictionary.\<close>

definition add_protocol :: "(json \<Rightarrow> string) \<Rightarrow> dict \<Rightarrow> string set \<Rightarrow> string set" where
  "add_protocol cs cp ps =
     (let protocol = dict_get cp ''charging_protocol'' in
      case protocol of
        JList xs \<Rightarrow> ps \<union> set (map (py_str cs) xs)
      | _ \<Rightarrow> if py_truthy protocol then insert (py_str cs protocol) ps else ps)"

definition add_equipment :: "(json \<Rightarrow> string) \<Rightarrow> dict \<Rightarrow> string set \<Rightarrow> string set" where
  "add_equipment cs cp es =
     (let equipment = py_or (py_or (dict_get cp ''id_or_serial_number'') (dict_get cp ''equipment''))
                            (dict_get cp ''name'') in
      if py_truthy equipment then insert (py_str cs equipment) es else es)"

definition add_mode :: "(json \<Rightarrow> string) \<Rightarrow> dict \<Rightarrow> string set \<Rightarrow> string set" where
  "add_mode cs cp ms =
     (let mode = py_or (dict_get cp ''mode'') (dict_get cp ''evcs_mode'') in
      if py_truthy mode then insert (py_str cs mode) ms else ms)"

text \<open>The loop \<^verbatim>\<open>for cp in cps\<close> (lines 246 to 265) over the three sets: \<^verbatim>\<open>cp.get\<close> raises
  \<^verbatim>\<open>AttributeError\<close> on a value that is not a dictionary, and the exception leaves
  \<^verbatim>\<open>process_and_export_data\<close>.\<close>

fun summarise :: "(json \<Rightarrow> string) \<Rightarrow> json list \<Rightarrow> summary \<Rightarrow> exn + summary" where
  "summarise cs [] s = Inr s"
| "summarise cs (cp # cps) s =
     (case cp of
        JDict c \<Rightarrow>
          summarise cs cps
            \<lparr>protocols = add_protocol cs c (protocols s),
             modes = add_mode cs c (modes s),
             equipments = add_equipment cs c (equipments s)\<rparr>
      | _ \<Rightarrow> Inl AttributeError)"

text \<open>Lines 241 to 273 for one station: the three fields are assigned in the order of the
  code, then a \<^verbatim>\<open>chargepoints_summary\<close> key is deleted. \<^verbatim>\<open>sorted\<close> of a set of strings is
  the sorted list of its elements.\<close>

definition enrich_station :: "(json \<Rightarrow> string) \<Rightarrow> dict \<Rightarrow> exn + dict" where
  "enrich_station cs station =
     (case summarise cs (extract_chargepoints station) empty_summary of
        Inl e \<Rightarrow> Inl e
      | Inr s \<Rightarrow>
          (let st1 = dict_set ''Charging Protocols''
                       (JStr (join '', '' (sorted_list_of_set (protocols s)))) station;
               st2 = dict_set ''EVCS Modes''
                       (JStr (join '', '' (sorted_list_of_set (modes s)))) st1;
               st3 = dict_set ''Charging Equipments''
                       (JStr (join '', '' (sorted_list_of_set (equipments s)))) st2
           in Inr (if dict_has st3 ''chargepoints_summary''
                   then dict_del ''chargepoints_summary'' st3 else st3)))"

text \<open>The loop \<^verbatim>\<open>for station in stations_data\<close> of line 240; the stations are updated in
  place, so the result is the list the later stages read.\<close>

fun enrich_all :: "(json \<Rightarrow> string) \<Rightarrow> dict list \<Rightarrow> exn + dict list" where
  "enrich_all cs [] = Inr []"
| "enrich_all cs (station # rest) =
     (case enrich_station cs station of
        Inl e \<Rightarrow> Inl e
      | Inr station' \<Rightarrow>
          (case enrich_all cs rest of
             Inl e \<Rightarrow> Inl e
           | Inr rest' \<Rightarrow> Inr (station' # rest')))"

section \<open>Dual-Shape Exporter: the flattened projection\<close>

text \<open>Lines 291 to 310. \<^verbatim>\<open>copy.deepcopy\<close> is the identity on values. Each row is the enriched
  station record with the three charge-point fields assigned in the order of the code.\<close>

definition flat_row :: "dict \<Rightarrow> dict \<Rightarrow> dict" where
  "flat_row base cp =
     dict_set ''EVCS mode'' (py_or (dict_get cp ''mode'') (dict_get cp ''evcs_mode''))
       (dict_set ''Charging Protocol'' (dict_get cp ''charging_protocol'')
          (dict_set ''Charging Equipment''
             (py_or (py_or (dict_get cp ''id_or_serial_number'') (dict_get cp ''equipment''))
                    (dict_get cp ''name''))
             base))"

definition placeholder_row :: "dict \<Rightarrow> dict" where
  "placeholder_row base =
     dict_set ''EVCS mode'' (JStr [])
       (dict_set ''Charging Protocol'' (JStr [])
          (dict_set ''Charging Equipment'' (JStr []) base))"

text \<open>The inner loop \<^verbatim>\<open>for cp in cps\<close>: \<^verbatim>\<open>cp.get\<close> raises on a value that is not a
  dictionary.\<close>

fun append_rows :: "dict \<Rightarrow> json list \<Rightarrow> dict list \<Rightarrow> exn + dict list" where
  "append_rows base [] flat_rows = Inr flat_rows"
| "append_rows base (cp # cps) flat_rows =
     (case cp of
        JDict c \<Rightarrow> append_rows base cps (flat_rows @ [flat_row base c])
      | _ \<Rightarrow> Inl AttributeError)"

text \<open>The outer loop \<^verbatim>\<open>for station in stations_data\<close>, with \<^verbatim>\<open>flat_rows\<close> as accumulator.\<close>

fun build_flat_rows :: "dict list \<Rightarrow> dict list \<Rightarrow> exn + dict list" where
  "build_flat_rows [] flat_rows = Inr flat_rows"
| "build_flat_rows (station # rest) flat_rows =
     (let cps = extract_chargepoints station in
      if cps \<noteq> [] then
        (case append_rows station cps flat_rows of
           Inl e \<Rightarrow> Inl e
         | Inr flat_rows' \<Rightarrow> build_flat_rows rest flat_rows')
      else build_flat_rows rest (flat_rows @ [placeholder_row station]))"

subsection \<open>The two pandas operations on the flattened frame\<close>

text \<open>
  pandas is a library. \<^verbatim>\<open>pd.DataFrame(rows)\<close> on a list of dictionaries takes as columns the
  keys of the rows in the order in which they are first met, and leaves a cell empty (NaN)
  where a row lacks the column. \<^verbatim>\<open>df[cols]\<close> with a list of labels returns the frame with
  exactly these columns in this order, and raises \<^verbatim>\<open>KeyError\<close> when a label is not a
  column of \<open>df\<close>. A frame is kept as its column list and its row records; \<open>table\<close> is
  the grid that is written out, \<open>None\<close> being an empty cell.
\<close>

fun first_seen_acc :: "'a list \<Rightarrow> 'a list \<Rightarrow> 'a list" where
  "first_seen_acc acc [] = acc"
| "first_seen_acc acc (x # xs) = first_seen_acc (if x \<in> set acc then acc else acc @ [x]) xs"

definition first_seen :: "'a list \<Rightarrow> 'a list" where
  "first_seen xs = first_seen_acc [] xs"

record frame =
  columns :: "string list"
  records :: "dict list"

definition table :: "frame \<Rightarrow> json option list list" where
  "table df = map (\<lambda>r. map (map_of r) (columns df)) (records df)"

definition data_frame :: "dict list \<Rightarrow> frame" where
  "data_frame rows = \<lparr>columns = first_seen (concat (map (map fst) rows)), records = rows\<rparr>"

definition select_columns :: "string list \<Rightarrow> frame \<Rightarrow> exn + frame" where
  "select_columns cols df =
     (if list_all (\<lambda>c. c \<in> set (columns df)) cols
      then Inr \<lparr>columns = cols, records = records df\<rparr>
      else Inl KeyError)"

text \<open>Lines 314 to 320.\<close>

definition priority_cols :: "string list" where
  "priority_cols =
     [''station_id'', ''company_id'', ''evcs_establishment_name'',
      ''Charging Protocol'', ''Charging Equipment'', ''EVCS mode'', ''region'']"

definition reorder_columns :: "frame \<Rightarrow> exn + frame" where
  "reorder_columns flat_df =
     (let other_cols = filter (\<lambda>col. col \<notin> set priority_cols) (columns flat_df)
      in select_columns (priority_cols @ other_cols) flat_df)"

section \<open>Run Orchestrator\<close>

text \<open>
  The collaborators of a run, as far as the code and its error taxonomy foresee their
  outcome: whether the driver starts, whether the page loads, whether a CSRF token is
  found, the intercepted exchanges, the three groups of file writes, whether the
  notification is configured (API key present and client library importable) and how its
  dispatch ends. Console output, the fixed delays and \<^verbatim>\<open>driver.quit()\<close> return.
\<close>

datatype dispatch_outcome = Dispatched | ApiException | OtherException

record collaborators =
  driver_init :: "exn option"
  page_load :: "exn option"
  csrf_token_found :: bool
  requests :: "request list"
  json_write :: "exn option"
  aggregated_write :: "exn option"
  flattened_write :: "exn option"
  email_configured :: bool
  email_dispatch :: dispatch_outcome

datatype out_file = JsonFile | AggregatedXlsx | AggregatedCsv | FlatXlsx | FlatCsv

text \<open>A composed notification: the success mail carries the two counts, the manifest and
  the warnings; the failure mail carries the error, the additional errors and the partial
  manifest.\<close>

datatype notification =
    SuccessMail nat nat "out_file list" "log_entry list"
  | FailureMail "exn option" "log_entry list" "out_file list"

record run_state =
  error_log :: "log_entry list"
  output_files :: "out_file list"
  driver_open :: bool
  delivered :: "notification list"

definition initial_state :: run_state where
  "initial_state = \<lparr>error_log = [], output_files = [], driver_open = False, delivered = []\<rparr>"

text \<open>Each stage returns the exception it raises or its value, and the state it leaves.\<close>

definition setup_driver :: "collaborators \<Rightarrow> run_state \<Rightarrow> (exn + unit) \<times> run_state" where
  "setup_driver env s =
     (case driver_init env of
        Some e \<Rightarrow> (Inl e, s\<lparr>error_log := error_log s @ [LogDriverInitFailed e]\<rparr>)
      | None \<Rightarrow> (Inr (), s\<lparr>driver_open := True\<rparr>))"

definition scrape_evcs_data ::
    "codec \<Rightarrow> collaborators \<Rightarrow> run_state \<Rightarrow> (exn + dict list) \<times> run_state" where
  "scrape_evcs_data c env s =
     (case page_load env of
        Some e \<Rightarrow> (Inl e, s)
      | None \<Rightarrow>
          if \<not> csrf_token_found env
          then (Inl CsrfTokenNotFound, s\<lparr>error_log := error_log s @ [LogCsrfTokenNotFound]\<rparr>)
          else
            (case extract_station_data c (requests env) (error_log s) of
               (res, lg) \<Rightarrow> (res, s\<lparr>error_log := lg\<rparr>)))"

definition save_json_data :: "collaborators \<Rightarrow> run_state \<Rightarrow> (exn + unit) \<times> run_state" where
  "save_json_data env s =
     (case json_write env of
        Some e \<Rightarrow> (Inl e, s)
      | None \<Rightarrow> (Inr (), s\<lparr>output_files := output_files s @ [JsonFile]\<rparr>))"

text \<open>\<^verbatim>\<open>process_and_export_data\<close>: enrichment, the aggregated export, the flattened rows,
  the column order, the flattened export; it returns the two counts.\<close>

definition process_and_export_data ::
    "(json \<Rightarrow> string) \<Rightarrow> collaborators \<Rightarrow> dict list \<Rightarrow> run_state \<Rightarrow> (exn + nat \<times> nat) \<times> run_state" where
  "process_and_export_data cs env stations_data s =
     (case enrich_all cs stations_data of
        Inl e \<Rightarrow> (Inl e, s)
      | Inr enriched \<Rightarrow>
          (case aggregated_write env of
             Some e \<Rightarrow> (Inl e, s)
           | None \<Rightarrow>
               (let s1 = s\<lparr>output_files := output_files s @ [AggregatedXlsx, AggregatedCsv]\<rparr> in
                case build_flat_rows enriched [] of
                  Inl e \<Rightarrow> (Inl e, s1)
                | Inr flat_rows \<Rightarrow>
                    (case reorder_columns (data_frame flat_rows) of
                       Inl e \<Rightarrow> (Inl e, s1)
                     | Inr flat_df \<Rightarrow>
                         (case flattened_write env of
                            Some e \<Rightarrow> (Inl e, s1)
                          | None \<Rightarrow>
                              (Inr (length enriched, length flat_rows),
                               s1\<lparr>output_files := output_files s1 @ [FlatXlsx, FlatCsv]\<rparr>))))))"

text \<open>\<^verbatim>\<open>send_email_notification\<close>: skipped when not configured; otherwise the message is
  composed from the arguments, the manifest and the log, and every exception of the
  dispatch is caught and logged.\<close>

definition send_email_notification ::
    "collaborators \<Rightarrow> bool \<Rightarrow> nat \<Rightarrow> nat \<Rightarrow> exn option \<Rightarrow> run_state \<Rightarrow> run_state" where
  "send_email_notification env success stations_count chargepoints_count error_details s =
     (if \<not> email_configured env then s
      else
        (case email_dispatch env of
           Dispatched \<Rightarrow>
             s\<lparr>delivered := delivered s @
                 [if success
                  then SuccessMail stations_count chargepoints_count (output_files s) (error_log s)
                  else FailureMail error_details (error_log s) (output_files s)]\<rparr>
         | ApiException \<Rightarrow> s\<lparr>error_log := error_log s @ [LogSendinBlueApiError]\<rparr>
         | OtherException \<Rightarrow> s\<lparr>error_log := error_log s @ [LogEmailError]\<rparr>))"

definition cleanup :: "run_state \<Rightarrow> run_state" where
  "cleanup s = (if driver_open s then s\<lparr>driver_open := False\<rparr> else s)"

text \<open>The \<^verbatim>\<open>try\<close> block of \<^verbatim>\<open>run\<close> up to the export (lines 445 to 449).\<close>

definition pipeline ::
    "(json \<Rightarrow> string) \<Rightarrow> codec \<Rightarrow> collaborators \<Rightarrow> run_state \<Rightarrow> (exn + nat \<times> nat) \<times> run_state" where
  "pipeline cs c env s =
     (case setup_driver env s of
        (Inl e, s1) \<Rightarrow> (Inl e, s1)
      | (Inr _, s1) \<Rightarrow>
          (case scrape_evcs_data c env s1 of
             (Inl e, s2) \<Rightarrow> (Inl e, s2)
           | (Inr stations_data, s2) \<Rightarrow>
               (case save_json_data env s2 of
                  (Inl e, s3) \<Rightarrow> (Inl e, s3)
                | (Inr _, s3) \<Rightarrow> process_and_export_data cs env stations_data s3)))"

text \<open>\<^verbatim>\<open>run\<close>: the exit code and the final state.\<close>

definition run :: "(json \<Rightarrow> string) \<Rightarrow> codec \<Rightarrow> collaborators \<Rightarrow> nat \<times> run_state" where
  "run cs c env =
     (case pipeline cs c env initial_state of
        (Inr (stations_count, chargepoints_count), s) \<Rightarrow>
          (0, cleanup (send_email_notification env True stations_count chargepoints_count None s))
      | (Inl e, s) \<Rightarrow>
          (1, cleanup (send_email_notification env False 0 0 (Some e) s)))"

section \<open>Specification-side definitions\<close>

text \<open>
  The definitions of this section follow the wording of the specification; the theorems
  below compare them with the functions translated from the code.
\<close>

subsection \<open>Station identity and the aggregated mapping\<close>

text \<open>The identity an entry carries: the entry is a record with an embedded \<^verbatim>\<open>station\<close>
  record whose \<^verbatim>\<open>id\<close>, or else \<^verbatim>\<open>station_id\<close>, is non-empty and can serve as a key.\<close>

definition station_identity :: "json \<Rightarrow> key option" where
  "station_identity cp =
     (case cp of
        JDict c \<Rightarrow>
          (case map_of c ''station'' of
             Some (JDict sd) \<Rightarrow>
               (let v = py_or (dict_get sd ''id'') (dict_get sd ''station_id'') in
                if py_truthy v then py_hash v else None)
           | _ \<Rightarrow> None)
      | _ \<Rightarrow> None)"

text \<open>The embedded station record of an entry.\<close>

definition station_of :: "json \<Rightarrow> dict" where
  "station_of cp =
     (case cp of
        JDict c \<Rightarrow> (case map_of c ''station'' of Some (JDict sd) \<Rightarrow> sd | _ \<Rightarrow> [])
      | _ \<Rightarrow> [])"

text \<open>The entries that reference an identity, in input order.\<close>

definition entries_of :: "key \<Rightarrow> json list \<Rightarrow> json list" where
  "entries_of k xs = filter (\<lambda>cp. station_identity cp = Some k) xs"

text \<open>The mapping the Aggregator is to produce from a sequence of entries: one record per
  identity in first-seen order, cloned from the first entry's station record, owning the
  entries that reference it.\<close>

definition aggregate_spec :: "json list \<Rightarrow> stations" where
  "aggregate_spec xs =
     map (\<lambda>k. (k, dict_set ''chargepoints'' (JList (entries_of k xs))
                    (station_of (hd (entries_of k xs)))))
       (first_seen (List.map_filter station_identity xs))"

text \<open>Changing the record stored under an identity.\<close>

definition upd_station :: "key \<Rightarrow> (dict \<Rightarrow> dict) \<Rightarrow> stations \<Rightarrow> stations" where
  "upd_station k f d = map (\<lambda>p. if fst p = k then (fst p, f (snd p)) else p) d"

text \<open>The ordered sequence of the entries of all station responses of a run; a response
  that raises contributes none.\<close>

definition all_entries :: "codec \<Rightarrow> request list \<Rightarrow> json list" where
  "all_entries c rs =
     concat (map (\<lambda>r. case response_entries c (body r) of Inr xs \<Rightarrow> xs | Inl e \<Rightarrow> [])
               (filter is_station_response rs))"

subsection \<open>Charge-point extraction and the derived summary fields\<close>

text \<open>The nested list a wrapping element holds, if any.\<close>

definition nested_chargepoints :: "json \<Rightarrow> json list" where
  "nested_chargepoints item =
     (case item of
        JDict i \<Rightarrow> (case map_of i ''chargepoints'' of Some (JList ys) \<Rightarrow> ys | _ \<Rightarrow> [])
      | _ \<Rightarrow> [])"

text \<open>The shape decision: a non-empty list whose first element is a record with a
  \<^verbatim>\<open>mode\<close> or an \<^verbatim>\<open>id_or_serial_number\<close> key is taken as a list of charge-points.\<close>

definition direct_shape :: "json list \<Rightarrow> bool" where
  "direct_shape cps = (case cps of [] \<Rightarrow> False | c # _ \<Rightarrow> is_direct c)"

definition is_dict :: "json \<Rightarrow> bool" where
  "is_dict v = (case v of JDict _ \<Rightarrow> True | _ \<Rightarrow> False)"

text \<open>Protocols: the protocol field is a scalar or a list; all values, stringified.\<close>

definition protocol_strings :: "(json \<Rightarrow> string) \<Rightarrow> json \<Rightarrow> string set" where
  "protocol_strings cs cp =
     (case cp of
        JDict c \<Rightarrow>
          (case dict_get c ''charging_protocol'' of
             JList ps \<Rightarrow> py_str cs ` set ps
           | v \<Rightarrow> if py_truthy v then {py_str cs v} else {})
      | _ \<Rightarrow> {})"

text \<open>The first non-empty value among an ordered list of field names.\<close>

fun first_non_empty :: "dict \<Rightarrow> string list \<Rightarrow> json option" where
  "first_non_empty c [] = None"
| "first_non_empty c (k # ks) =
     (if py_truthy (dict_get c k) then Some (dict_get c k) else first_non_empty c ks)"

definition equipment_strings :: "(json \<Rightarrow> string) \<Rightarrow> json \<Rightarrow> string set" where
  "equipment_strings cs cp =
     (case cp of
        JDict c \<Rightarrow>
          (case first_non_empty c [''id_or_serial_number'', ''equipment'', ''name''] of
             None \<Rightarrow> {}
           | Some v \<Rightarrow> {py_str cs v})
      | _ \<Rightarrow> {})"

definition mode_strings :: "(json \<Rightarrow> string) \<Rightarrow> json \<Rightarrow> string set" where
  "mode_strings cs cp =
     (case cp of
        JDict c \<Rightarrow>
          (case first_non_empty c [''mode'', ''evcs_mode''] of
             None \<Rightarrow> {}
           | Some v \<Rightarrow> {py_str cs v})
      | _ \<Rightarrow> {})"

text \<open>A derived field: the values sorted, without duplicates, joined by comma and space.\<close>

definition summary_field :: "string set \<Rightarrow> json" where
  "summary_field S = JStr (join '', '' (sorted_list_of_set S))"

text \<open>The three derived strings of a record, in the order protocols, modes, equipments.\<close>

definition derived_strings :: "dict \<Rightarrow> json \<times> json \<times> json" where
  "derived_strings st =
     (dict_get st ''Charging Protocols'', dict_get st ''EVCS Modes'',
      dict_get st ''Charging Equipments'')"

subsection \<open>The flattened projection\<close>

text \<open>The rows of one station: one per extracted charge-point, or the placeholder row.\<close>

definition row_of :: "dict \<Rightarrow> json \<Rightarrow> dict" where
  "row_of st cp = (case cp of JDict c \<Rightarrow> flat_row st c | _ \<Rightarrow> st)"

definition rows_of_station :: "dict \<Rightarrow> dict list" where
  "rows_of_station st =
     (if extract_chargepoints st = [] then [placeholder_row st]
      else map (row_of st) (extract_chargepoints st))"

definition station_level_priority_cols :: "string list" where
  "station_level_priority_cols =
     [''station_id'', ''company_id'', ''evcs_establishment_name'', ''region'']"

text \<open>The three charge-point columns of a flattened row, and their values in a row.\<close>

definition charge_point_cols :: "string list" where
  "charge_point_cols = [''Charging Equipment'', ''Charging Protocol'', ''EVCS mode'']"

definition flat_fields :: "dict \<Rightarrow> json \<times> json \<times> json" where
  "flat_fields row =
     (dict_get row ''Charging Equipment'', dict_get row ''Charging Protocol'',
      dict_get row ''EVCS mode'')"

subsection \<open>The outcome of a run\<close>

text \<open>Scraping and export succeeded: the stages before the notification all returned.\<close>

definition scrape_and_export_ok :: "(json \<Rightarrow> string) \<Rightarrow> codec \<Rightarrow> collaborators \<Rightarrow> bool" where
  "scrape_and_export_ok cs c env =
     (case fst (pipeline cs c env initial_state) of Inr _ \<Rightarrow> True | Inl _ \<Rightarrow> False)"

section \<open>Example data\<close>

text \<open>\<^verbatim>\<open>str\<close> of a list or dictionary is not needed in the examples.\<close>

definition no_container_str :: "json \<Rightarrow> string" where
  "no_container_str v = []"

text \<open>Three entries: two reference station \<^verbatim>\<open>S1\<close> (with different station names), one
  references station 7 through \<^verbatim>\<open>station_id\<close>.\<close>

definition cp_a :: json where
  "cp_a =
     JDict [(''station'', JDict [(''id'', JStr ''S1''), (''name'', JStr ''North'')]),
            (''mode'', JStr ''AC'')]"

definition cp_b :: json where
  "cp_b = JDict [(''station'', JDict [(''station_id'', JInt 7)]), (''mode'', JStr ''DC'')]"

definition cp_c :: json where
  "cp_c =
     JDict [(''station'', JDict [(''id'', JStr ''S1''), (''name'', JStr ''Renamed'')]),
            (''mode'', JStr ''DC'')]"

text \<open>The mapping after \<open>cp_a\<close> alone.\<close>

definition record_one :: dict where
  "record_one = [(''id'', JStr ''S1''), (''name'', JStr ''North''), (''chargepoints'', JList [cp_a])]"

definition stations_one :: stations where
  "stations_one = [(KStr ''S1'', record_one)]"

text \<open>The records aggregated from \<open>cp_a\<close>, \<open>cp_c\<close> in either order, and the first one
  enriched.\<close>

definition station_ac :: dict where
  "station_ac =
     [(''id'', JStr ''S1''), (''name'', JStr ''North''), (''chargepoints'', JList [cp_a, cp_c])]"

definition station_ca :: dict where
  "station_ca =
     [(''id'', JStr ''S1''), (''name'', JStr ''Renamed''), (''chargepoints'', JList [cp_c, cp_a])]"

definition enriched_ac :: dict where
  "enriched_ac =
     station_ac @
     [(''Charging Protocols'', JStr []), (''EVCS Modes'', JStr ''AC, DC''),
      (''Charging Equipments'', JStr [])]"

text \<open>Two entries of station \<^verbatim>\<open>S9\<close>: one carries a mode, the other only an equipment
  name; the records the Aggregator builds from them in either order; the first one
  enriched.\<close>

definition cp_mode :: json where
  "cp_mode = JDict [(''station'', JDict [(''id'', JStr ''S9'')]), (''mode'', JStr ''AC'')]"

definition cp_equipment :: json where
  "cp_equipment =
     JDict [(''station'', JDict [(''id'', JStr ''S9'')]), (''equipment'', JStr ''E1'')]"

definition station_mode_first :: dict where
  "station_mode_first = [(''id'', JStr ''S9''), (''chargepoints'', JList [cp_mode, cp_equipment])]"

definition station_equipment_first :: dict where
  "station_equipment_first =
     [(''id'', JStr ''S9''), (''chargepoints'', JList [cp_equipment, cp_mode])]"

definition enriched_mode_first :: dict where
  "enriched_mode_first =
     station_mode_first @
     [(''Charging Protocols'', JStr []), (''EVCS Modes'', JStr ''AC''),
      (''Charging Equipments'', JStr ''E1'')]"

text \<open>The scenario of the specification: two entries of station \<^verbatim>\<open>S1\<close>, one with protocol
  \<^verbatim>\<open>"CCS"\<close> and one with protocol \<^verbatim>\<open>["CCS","Type2"]\<close>; the same two entries with a
  serial number on the first; the aggregated records and their enrichment.\<close>

definition cp_ccs :: json where
  "cp_ccs =
     JDict [(''station'', JDict [(''id'', JStr ''S1'')]), (''charging_protocol'', JStr ''CCS'')]"

definition ccs_type2 :: dict where
  "ccs_type2 =
     [(''station'', JDict [(''id'', JStr ''S1'')]),
      (''charging_protocol'', JList [JStr ''CCS'', JStr ''Type2''])]"

definition cp_ccs_type2 :: json where
  "cp_ccs_type2 = JDict ccs_type2"

definition station_s1 :: dict where
  "station_s1 = [(''id'', JStr ''S1''), (''chargepoints'', JList [cp_ccs, cp_ccs_type2])]"

definition enriched_s1 :: dict where
  "enriched_s1 =
     station_s1 @
     [(''Charging Protocols'', JStr []), (''EVCS Modes'', JStr []),
      (''Charging Equipments'', JStr [])]"

definition ccs_serial :: dict where
  "ccs_serial =
     [(''station'', JDict [(''id'', JStr ''S1'')]), (''charging_protocol'', JStr ''CCS''),
      (''id_or_serial_number'', JStr ''SN-1'')]"

definition cp_ccs_serial :: json where
  "cp_ccs_serial = JDict ccs_serial"

definition station_s1_serial :: dict where
  "station_s1_serial =
     [(''id'', JStr ''S1''), (''chargepoints'', JList [cp_ccs_serial, cp_ccs_type2])]"

definition enriched_s1_serial :: dict where
  "enriched_s1_serial =
     station_s1_serial @
     [(''Charging Protocols'', JStr ''CCS, Type2''), (''EVCS Modes'', JStr []),
      (''Charging Equipments'', JStr ''SN-1'')]"

text \<open>An entry whose station record has all four station-level priority keys, in another
  order than the priority order, and the same entry without \<^verbatim>\<open>region\<close>; the records
  aggregated from each, the summary fields the Enricher adds and the charge-point fields
  of the flattened row.\<close>

definition cp_full :: json where
  "cp_full =
     JDict [(''station'',
             JDict [(''region'', JStr ''NCR''), (''address'', JStr ''Main St''),
                    (''station_id'', JInt 5), (''evcs_establishment_name'', JStr ''Mall''),
                    (''company_id'', JInt 2)]),
            (''id_or_serial_number'', JStr ''SN-5''), (''charging_protocol'', JStr ''CHAdeMO''),
            (''mode'', JStr ''DC'')]"

definition station_full :: dict where
  "station_full =
     [(''region'', JStr ''NCR''), (''address'', JStr ''Main St''), (''station_id'', JInt 5),
      (''evcs_establishment_name'', JStr ''Mall''), (''company_id'', JInt 2),
      (''chargepoints'', JList [cp_full])]"

definition cp_no_region :: json where
  "cp_no_region =
     JDict [(''station'',
             JDict [(''address'', JStr ''Main St''), (''station_id'', JInt 5),
                    (''evcs_establishment_name'', JStr ''Mall''), (''company_id'', JInt 2)]),
            (''id_or_serial_number'', JStr ''SN-5''), (''charging_protocol'', JStr ''CHAdeMO''),
            (''mode'', JStr ''DC'')]"

definition station_no_region :: dict where
  "station_no_region =
     [(''address'', JStr ''Main St''), (''station_id'', JInt 5),
      (''evcs_establishment_name'', JStr ''Mall''), (''company_id'', JInt 2),
      (''chargepoints'', JList [cp_no_region])]"

definition summary_full :: dict where
  "summary_full =
     [(''Charging Protocols'', JStr ''CHAdeMO''), (''EVCS Modes'', JStr ''DC''),
      (''Charging Equipments'', JStr ''SN-5'')]"

definition fields_full :: dict where
  "fields_full =
     [(''Charging Equipment'', JStr ''SN-5''), (''Charging Protocol'', JStr ''CHAdeMO''),
      (''EVCS mode'', JStr ''DC'')]"

text \<open>A run: the payload that carries \<open>cp_full\<close>, a payload whose \<^verbatim>\<open>props\<close> is
  \<^verbatim>\<open>null\<close>, a parser that knows these two payloads only, a station response with each
  of them and one with an unparseable body, and the collaborators of three runs.\<close>

definition payload_one :: json where
  "payload_one = JDict [(''props'', JDict [(''chargepoints'', JList [cp_full])])]"

definition payload_odd :: json where
  "payload_odd = JDict [(''props'', JNull)]"

definition toy_codec :: codec where
  "toy_codec =
     \<lparr>gzip_decompress = (\<lambda>b. None), brotli = None, utf8_decode = (\<lambda>b. b),
      json_loads =
        (\<lambda>s. if s = ''payload'' then Inr payload_one
             else if s = ''odd'' then Inr payload_odd
             else Inl JSONDecodeError)\<rparr>"

definition good_request :: request where
  "good_request =
     \<lparr>has_response = True, url = ''https://evindustry.ph/evcs-locations'',
      content_type = ''application/json; charset=utf-8'', body = ''payload''\<rparr>"

definition bad_request :: request where
  "bad_request =
     \<lparr>has_response = True, url = ''https://evindustry.ph/evcs-locations'',
      content_type = ''application/json'', body = ''<html>''\<rparr>"

definition odd_request :: request where
  "odd_request =
     \<lparr>has_response = True, url = ''https://evindustry.ph/evcs-locations'',
      content_type = ''application/json'', body = ''odd''\<rparr>"

definition env_mail_fails :: collaborators where
  "env_mail_fails =
     \<lparr>driver_init = None, page_load = None, csrf_token_found = True,
      requests = [bad_request, good_request], json_write = None, aggregated_write = None,
      flattened_write = None, email_configured = True, email_dispatch = ApiException\<rparr>"

definition env_mail_breaks :: collaborators where
  "env_mail_breaks =
     \<lparr>driver_init = None, page_load = None, csrf_token_found = True,
      requests = [bad_request, good_request], json_write = None, aggregated_write = None,
      flattened_write = None, email_configured = True, email_dispatch = OtherException\<rparr>"

definition env_no_data :: collaborators where
  "env_no_data =
     \<lparr>driver_init = None, page_load = None, csrf_token_found = True,
      requests = [bad_request], json_write = None, aggregated_write = None,
      flattened_write = None, email_configured = True, email_dispatch = Dispatched\<rparr>"

section \<open>The Station Aggregator meets its specification\<close>

lemma first_seen_acc_snoc:
  "first_seen_acc acc (xs @ [x]) =
     (if x \<in> set (first_seen_acc acc xs) then first_seen_acc acc xs
      else first_seen_acc acc xs @ [x])"
  by (induction xs arbitrary: acc) auto

lemma first_seen_snoc:
  "first_seen (xs @ [x]) = (if x \<in> set (first_seen xs) then first_seen xs else first_seen xs @ [x])"
  by (simp add: first_seen_def first_seen_acc_snoc)

lemma first_seen_Nil [simp]: "first_seen [] = []"
  by (simp add: first_seen_def)

lemma set_first_seen [simp]: "set (first_seen xs) = set xs"
  by (induction xs rule: rev_induct) (auto simp: first_seen_snoc)

lemma distinct_first_seen [simp]: "distinct (first_seen xs)"
  by (induction xs rule: rev_induct) (auto simp: first_seen_snoc)

lemma map_of_dict_set: "map_of (dict_set k v r) = (map_of r)(k \<mapsto> v)"
  by (induction r) (auto simp: fun_eq_iff)

lemma keys_dict_set:
  "map fst (dict_set k v r) = (if k \<in> fst ` set r then map fst r else map fst r @ [k])"
  by (induction r) auto

lemma dict_set_twice [simp]: "dict_set k v (dict_set k v' r) = dict_set k v r"
  by (induction r) auto

lemma upd_station_append:
  "upd_station k f (d @ [(k, r)]) = upd_station k f d @ [(k, f r)]"
  by (simp add: upd_station_def)

lemma append_cp_present:
  "distinct (map fst d) \<Longrightarrow> map_of d k = Some r \<Longrightarrow> map_of r ''chargepoints'' = Some (JList xs) \<Longrightarrow>
   append_cp k cp d = (upd_station k (dict_set ''chargepoints'' (JList (xs @ [cp]))) d, None)"
proof (induction d)
  case Nil
  then show ?case by simp
next
  case (Cons p d)
  obtain k' r' where p: "p = (k', r')" by (cases p)
  show ?case
  proof (cases "k' = k")
    case True
    with Cons.prems p have "r' = r" by simp
    moreover have "map (\<lambda>p. if fst p = k then (fst p, f (snd p)) else p) d = d" for f
      using Cons.prems(1) p True by (induction d) (auto simp: rev_image_eqI)
    ultimately show ?thesis using True p Cons.prems by (simp add: upd_station_def)
  next
    case False
    with Cons p show ?thesis by (simp add: upd_station_def)
  qed
qed


lemma keys_aggregate_spec: "map fst (aggregate_spec xs) = first_seen (List.map_filter station_identity xs)"
  by (simp add: aggregate_spec_def comp_def)

lemma map_filter_snoc: "List.map_filter f (xs @ [x]) = List.map_filter f xs @ (case f x of None \<Rightarrow> [] | Some y \<Rightarrow> [y])"
  by (simp add: List.map_filter_def split: option.splits)

lemma set_map_filter: "set (List.map_filter f xs) = {y. \<exists>x\<in>set xs. f x = Some y}"
  by (force simp: List.map_filter_def image_iff)

lemma entries_of_snoc: "entries_of k (xs @ [x]) = entries_of k xs @ (if station_identity x = Some k then [x] else [])"
  by (simp add: entries_of_def)

lemma entries_of_empty_iff: "entries_of k xs = [] \<longleftrightarrow> k \<notin> set (List.map_filter station_identity xs)"
  by (auto simp: entries_of_def set_map_filter filter_empty_conv)

lemma aggregate_spec_skip:
  "station_identity x = None \<Longrightarrow> aggregate_spec (xs @ [x]) = aggregate_spec xs"
  by (simp add: aggregate_spec_def map_filter_snoc entries_of_snoc)

lemma aggregate_spec_new:
  assumes "station_identity x = Some k" "k \<notin> set (List.map_filter station_identity xs)"
  shows "aggregate_spec (xs @ [x]) =
           aggregate_spec xs @ [(k, dict_set ''chargepoints'' (JList [x]) (station_of x))]"
proof -
  have e: "entries_of k xs = []" using assms(2) by (simp add: entries_of_empty_iff)
  have "entries_of k' (xs @ [x]) = entries_of k' xs"
    if "k' \<in> set (List.map_filter station_identity xs)" for k'
    using that assms by (auto simp: entries_of_snoc)
  then show ?thesis
    using assms e by (simp add: aggregate_spec_def map_filter_snoc first_seen_snoc entries_of_snoc)
qed

lemma aggregate_spec_old:
  assumes "station_identity x = Some k" "k \<in> set (List.map_filter station_identity xs)"
  shows "aggregate_spec (xs @ [x]) =
           upd_station k (dict_set ''chargepoints'' (JList (entries_of k xs @ [x]))) (aggregate_spec xs)"
proof -
  have e: "entries_of k xs \<noteq> []" using assms(2) by (simp add: entries_of_empty_iff)
  show ?thesis
    using assms e
    by (auto simp: aggregate_spec_def map_filter_snoc first_seen_snoc entries_of_snoc upd_station_def)
qed

lemma map_of_aggregate_spec:
  "map_of (aggregate_spec xs) k =
     (if k \<in> set (List.map_filter station_identity xs)
      then Some (dict_set ''chargepoints'' (JList (entries_of k xs)) (station_of (hd (entries_of k xs))))
      else None)"
  by (simp add: aggregate_spec_def map_of_map_restrict restrict_map_def)

lemma station_identity_SomeD:
  "station_identity cp = Some k \<Longrightarrow>
   \<exists>c sd. cp = JDict c \<and> map_of c ''station'' = Some (JDict sd) \<and> station_of cp = sd \<and>
     py_truthy (py_or (dict_get sd ''id'') (dict_get sd ''station_id'')) \<and>
     py_hash (py_or (dict_get sd ''id'') (dict_get sd ''station_id'')) = Some k"
  by (auto simp: station_identity_def station_of_def Let_def split: json.splits option.splits if_splits)

lemma add_chargepoint_identity:
  assumes "station_identity x = Some k"
  shows "add_chargepoint (aggregate_spec xs) x = (aggregate_spec (xs @ [x]), None)"
proof -
  from station_identity_SomeD [OF assms] obtain c sd where
    x: "x = JDict c" and st: "map_of c ''station'' = Some (JDict sd)" and so: "station_of x = sd"
    and tr: "py_truthy (py_or (dict_get sd ''id'') (dict_get sd ''station_id''))"
    and h: "py_hash (py_or (dict_get sd ''id'') (dict_get sd ''station_id'')) = Some k"
    by blast
  let ?d = "aggregate_spec xs"
  let ?d' = "if map_of ?d k = None then ?d @ [(k, dict_set ''chargepoints'' (JList []) sd)] else ?d"
  have step: "add_chargepoint ?d x = append_cp k x ?d'"
    using x st tr h by (simp add: add_chargepoint_def dict_has_def Let_def)
  show ?thesis
  proof (cases "k \<in> set (List.map_filter station_identity xs)")
    case True
    have d: "distinct (map fst ?d)" by (simp add: keys_aggregate_spec)
    have m: "map_of ?d k = Some (dict_set ''chargepoints'' (JList (entries_of k xs)) (station_of (hd (entries_of k xs))))"
      using True by (simp add: map_of_aggregate_spec)
    have "append_cp k x ?d = (upd_station k (dict_set ''chargepoints'' (JList (entries_of k xs @ [x]))) ?d, None)"
      by (rule append_cp_present [OF d m]) (simp add: map_of_dict_set)
    then show ?thesis using step m aggregate_spec_old [OF assms True] by simp
  next
    case False
    have n: "map_of ?d k = None" using False by (simp add: map_of_aggregate_spec)
    have d: "distinct (map fst (?d @ [(k, dict_set ''chargepoints'' (JList []) sd)]))"
      using False by (simp add: keys_aggregate_spec)
    have m: "map_of (?d @ [(k, dict_set ''chargepoints'' (JList []) sd)]) k = Some (dict_set ''chargepoints'' (JList []) sd)"
      using n by (simp add: map_add_def)
    have "append_cp k x (?d @ [(k, dict_set ''chargepoints'' (JList []) sd)]) =
        (upd_station k (dict_set ''chargepoints'' (JList ([] @ [x]))) (?d @ [(k, dict_set ''chargepoints'' (JList []) sd)]), None)"
      by (rule append_cp_present [OF d m]) (simp add: map_of_dict_set)
    then have a: "append_cp k x ?d' =
        (upd_station k (dict_set ''chargepoints'' (JList [x])) ?d @
           [(k, dict_set ''chargepoints'' (JList [x]) sd)], None)"
      using n by (simp add: upd_station_append)
    have "fst p \<noteq> k" if "p \<in> set ?d" for p
    proof -
      from that have "fst p \<in> set (map fst ?d)" by simp
      then show ?thesis using False by (auto simp: keys_aggregate_spec)
    qed
    then have "upd_station k f ?d = ?d" for f
      by (auto simp: upd_station_def intro!: map_idI)
    with a have "append_cp k x ?d' = (?d @ [(k, dict_set ''chargepoints'' (JList [x]) sd)], None)"
      by simp
    then show ?thesis
      using step so aggregate_spec_new [OF assms False] by simp
  qed
qed

lemma add_chargepoint_anonymous:
  assumes "station_identity x = None"
  shows "fst (add_chargepoint d x) = d"
  using assms
  by (auto simp: add_chargepoint_def station_identity_def Let_def
           split: sum.splits bool.splits json.splits option.splits if_splits)

text \<open>Whatever the entries are, as long as the loop raises nothing the mapping is the
  specified one: entries without an identity are skipped.\<close>

lemma add_all_refines:
  "add_all (aggregate_spec pre) xs = (d, None) \<Longrightarrow> d = aggregate_spec (pre @ xs)"
proof (induction xs arbitrary: pre)
  case Nil
  then show ?case by simp
next
  case (Cons x xs)
  show ?case
  proof (cases "station_identity x")
    case None
    obtain d' eo where a: "add_chargepoint (aggregate_spec pre) x = (d', eo)"
      by (cases "add_chargepoint (aggregate_spec pre) x")
    with add_chargepoint_anonymous [OF None, of "aggregate_spec pre"]
    have d': "d' = aggregate_spec pre" by simp
    from Cons.prems a have eo: "eo = None"
      by (cases eo) simp_all
    from Cons.prems a eo d' have "add_all (aggregate_spec (pre @ [x])) xs = (d, None)"
      by (simp add: aggregate_spec_skip [OF None])
    from Cons.IH [OF this] show ?thesis by simp
  next
    case (Some k)
    from Cons.prems have "add_all (aggregate_spec (pre @ [x])) xs = (d, None)"
      by (simp add: add_chargepoint_identity [OF Some])
    from Cons.IH [OF this] show ?thesis by simp
  qed
qed

lemma add_all_identified:
  "\<forall>cp\<in>set xs. station_identity cp \<noteq> None \<Longrightarrow>
   add_all (aggregate_spec pre) xs = (aggregate_spec (pre @ xs), None)"
proof (induction xs arbitrary: pre)
  case Nil
  then show ?case by simp
next
  case (Cons x xs)
  then obtain k where k: "station_identity x = Some k" by auto
  have "add_all (aggregate_spec (pre @ [x])) xs = (aggregate_spec ((pre @ [x]) @ xs), None)"
    using Cons.prems by (intro Cons.IH) simp
  then show ?case
    by (simp add: add_chargepoint_identity [OF k])
qed

lemma aggregate_spec_Nil: "aggregate_spec [] = []"
  by (simp add: aggregate_spec_def List.map_filter_def)

lemma map_filter_all_Some:
  "\<forall>x\<in>set xs. f x \<noteq> None \<Longrightarrow> List.map_filter f xs = map (the \<circ> f) xs"
  by (induction xs) (auto simp: List.map_filter_def)

lemma dict_get_dict_set: "dict_get (dict_set k v r) k = v"
  by (simp add: dict_get_def map_of_dict_set)

lemma all_entries_Cons:
  "all_entries c (r # rs) =
     (if is_station_response r
      then (case response_entries c (body r) of Inr xs \<Rightarrow> xs | Inl e \<Rightarrow> []) @ all_entries c rs
      else all_entries c rs)"
  by (simp add: all_entries_def)

lemma scan_requests_aggregates:
  "\<forall>cp\<in>set (all_entries c rs). station_identity cp \<noteq> None \<Longrightarrow>
   fst (scan_requests c rs (aggregate_spec pre, lg)) = aggregate_spec (pre @ all_entries c rs)"
proof (induction rs arbitrary: pre lg)
  case Nil
  then show ?case by (simp add: all_entries_def)
next
  case (Cons r rs)
  show ?case
  proof (cases "is_station_response r")
    case False
    with Cons show ?thesis by (simp add: all_entries_Cons)
  next
    case True
    show ?thesis
    proof (cases "response_entries c (body r)")
      case (Inl e)
      with True Cons.prems have "\<forall>cp\<in>set (all_entries c rs). station_identity cp \<noteq> None"
        by (simp add: all_entries_Cons)
      from Cons.IH [OF this] True Inl show ?thesis
        by (simp add: all_entries_Cons process_response_def)
    next
      case (Inr xs)
      with True Cons.prems have x: "\<forall>cp\<in>set xs. station_identity cp \<noteq> None"
        and y: "\<forall>cp\<in>set (all_entries c rs). station_identity cp \<noteq> None"
        by (simp_all add: all_entries_Cons)
      have "process_response c (aggregate_spec pre) (body r) = (aggregate_spec (pre @ xs), None)"
        using Inr add_all_identified [OF x, of pre] by (simp add: process_response_def)
      with True Inr Cons.IH [OF y, of "pre @ xs" lg] show ?thesis
        by (simp add: all_entries_Cons)
    qed
  qed
qed

text \<open>
  Claim C1. For every ordered sequence of charge-point entries each of which carries a
  station identity, the loop of the Aggregator ends without an exception, the mapping has
  exactly one record per distinct identity (its keys are distinct), the keys stand in the
  order in which the identities are first seen, and the charge-point list of the record
  returned for an identity is the sequence of the entries that reference this identity,
  in input order (so its length is the number of these entries). The returned station
  list is \<open>map snd d\<close>. The same mapping results from the loop over the responses of any
  run whose station responses carry these entries, in this order.
\<close>

theorem aggregator_one_record_per_identity:
  assumes "\<forall>cp\<in>set entries. station_identity cp \<noteq> None"
  shows "\<exists>d. add_all [] entries = (d, None) \<and>
           map fst d = first_seen (map (the \<circ> station_identity) entries) \<and>
           distinct (map fst d) \<and>
           map (\<lambda>r. dict_get r ''chargepoints'') (map snd d) =
             map (\<lambda>k. JList (filter (\<lambda>cp. station_identity cp = Some k) entries)) (map fst d) \<and>
           (\<forall>c rs lg. all_entries c rs = entries \<longrightarrow> fst (scan_requests c rs ([], lg)) = d)"
proof -
  have "add_all (aggregate_spec []) entries = (aggregate_spec ([] @ entries), None)"
    using assms by (rule add_all_identified)
  then have a: "add_all [] entries = (aggregate_spec entries, None)"
    by (simp add: aggregate_spec_Nil)
  have k: "map fst (aggregate_spec entries) = first_seen (map (the \<circ> station_identity) entries)"
    using assms by (simp add: keys_aggregate_spec map_filter_all_Some)
  have c: "map (\<lambda>r. dict_get r ''chargepoints'') (map snd (aggregate_spec entries)) =
             map (\<lambda>k. JList (filter (\<lambda>cp. station_identity cp = Some k) entries))
               (map fst (aggregate_spec entries))"
    by (simp add: aggregate_spec_def comp_def dict_get_dict_set entries_of_def)
  have d: "distinct (map fst (aggregate_spec entries))"
    by (simp add: keys_aggregate_spec)
  have r: "\<forall>c rs lg. all_entries c rs = entries \<longrightarrow>
             fst (scan_requests c rs ([], lg)) = aggregate_spec entries"
  proof (intro allI impI)
    fix c rs lg
    assume e: "all_entries c rs = entries"
    with assms have "\<forall>cp\<in>set (all_entries c rs). station_identity cp \<noteq> None"
      by simp
    from scan_requests_aggregates [OF this, of "[]" lg] e
    show "fst (scan_requests c rs ([], lg)) = aggregate_spec entries"
      by (simp add: aggregate_spec_Nil)
  qed
  show ?thesis
    unfolding a using k c d r by (intro exI [of _ "aggregate_spec entries"] conjI refl)
qed

lemma example_identities:
  "station_identity cp_a = Some (KStr ''S1'')"
  "station_identity cp_b = Some (KInt 7)"
  "station_identity cp_c = Some (KStr ''S1'')"
  by (simp_all add: station_identity_def cp_a_def cp_b_def cp_c_def dict_get_def py_or_def)

theorem aggregator_one_record_per_identity_witness:
  "station_identity cp_a = Some (KStr ''S1'') \<and>
   station_identity cp_b = Some (KInt 7) \<and>
   station_identity cp_c = Some (KStr ''S1'') \<and>
   (\<exists>d. add_all [] [cp_a, cp_b, cp_c] = (d, None) \<and>
      map fst d = [KStr ''S1'', KInt 7] \<and>
      map (\<lambda>r. dict_get r ''chargepoints'') (map snd d) = [JList [cp_a, cp_c], JList [cp_b]]) \<and>
   station_identity cp_full = Some (KInt 5) \<and>
   all_entries toy_codec [bad_request, good_request] = [cp_full] \<and>
   fst (scan_requests toy_codec [bad_request, good_request] ([], [])) =
     fst (add_all [] [cp_full])"
proof -
  have h: "\<forall>cp\<in>set [cp_a, cp_b, cp_c]. station_identity cp \<noteq> None"
    by (simp add: example_identities)
  have ne: "cp_a \<noteq> cp_b" "cp_b \<noteq> cp_c" by (simp_all add: cp_a_def cp_b_def cp_c_def)
  have w1: "\<exists>d. add_all [] [cp_a, cp_b, cp_c] = (d, None) \<and>
      map fst d = [KStr ''S1'', KInt 7] \<and>
      map (\<lambda>r. dict_get r ''chargepoints'') (map snd d) = [JList [cp_a, cp_c], JList [cp_b]]"
    using aggregator_one_record_per_identity [OF h]
    by (auto simp: example_identities first_seen_def)
  have i: "station_identity cp_full = Some (KInt 5)"
    by code_simp
  then have h2: "\<forall>cp\<in>set [cp_full]. station_identity cp \<noteq> None"
    by simp
  have e: "all_entries toy_codec [bad_request, good_request] = [cp_full]"
    by code_simp
  from aggregator_one_record_per_identity [OF h2] obtain d where
    d: "add_all [] [cp_full] = (d, None)"
      "\<forall>c rs lg. all_entries c rs = [cp_full] \<longrightarrow> fst (scan_requests c rs ([], lg)) = d"
    by blast
  from d(2) e have "fst (scan_requests toy_codec [bad_request, good_request] ([], [])) = d"
    by blast
  with d(1) have w2: "fst (scan_requests toy_codec [bad_request, good_request] ([], [])) =
     fst (add_all [] [cp_full])"
    by simp
  from example_identities w1 i e w2 show ?thesis by (intro conjI)
qed

lemma append_cp_map_of:
  "map_of d k = Some r \<Longrightarrow> map_of r ''chargepoints'' = Some (JList xs) \<Longrightarrow>
   \<exists>d'. append_cp k cp d = (d', None) \<and> map fst d' = map fst d \<and>
        map_of d' = (map_of d)(k \<mapsto> dict_set ''chargepoints'' (JList (xs @ [cp])) r)"
proof (induction d)
  case Nil
  then show ?case by simp
next
  case (Cons p d)
  obtain k' r' where p: "p = (k', r')" by (cases p)
  show ?case
  proof (cases "k' = k")
    case True
    with Cons.prems p show ?thesis by (auto simp: fun_eq_iff)
  next
    case False
    with Cons.prems p have "map_of d k = Some r" by simp
    from Cons.IH [OF this Cons.prems(2)] obtain d' where
      "append_cp k cp d = (d', None)" "map fst d' = map fst d"
      "map_of d' = (map_of d)(k \<mapsto> dict_set ''chargepoints'' (JList (xs @ [cp])) r)"
      by blast
    with False p show ?thesis by (auto simp: fun_eq_iff)
  qed
qed

text \<open>
  Claim C10. When the mapping already holds a record for the identity of an entry,
  processing the entry raises nothing, keeps the keys of the mapping and every other
  record, and changes the stored record only at \<^verbatim>\<open>chargepoints\<close>, whose list gets the entry
  appended: the record keeps its keys and the values of all other fields, whatever the
  entry's own station record holds.
\<close>

theorem later_entry_only_appends:
  assumes "station_identity cp = Some k"
    and "map_of d k = Some r"
    and "map_of r ''chargepoints'' = Some (JList xs)"
  shows "\<exists>d' r'. add_chargepoint d cp = (d', None) \<and>
           map fst d' = map fst d \<and>
           map_of d' = (map_of d)(k \<mapsto> r') \<and>
           map fst r' = map fst r \<and>
           map_of r' = (map_of r)(''chargepoints'' \<mapsto> JList (xs @ [cp]))"
proof -
  from station_identity_SomeD [OF assms(1)] obtain c sd where
    x: "cp = JDict c" and st: "map_of c ''station'' = Some (JDict sd)"
    and tr: "py_truthy (py_or (dict_get sd ''id'') (dict_get sd ''station_id''))"
    and h: "py_hash (py_or (dict_get sd ''id'') (dict_get sd ''station_id'')) = Some k"
    by blast
  have step: "add_chargepoint d cp = append_cp k cp d"
    using x st tr h assms(2) by (simp add: add_chargepoint_def dict_has_def Let_def)
  from append_cp_map_of [OF assms(2,3)] obtain d' where
    d': "append_cp k cp d = (d', None)" "map fst d' = map fst d"
      "map_of d' = (map_of d)(k \<mapsto> dict_set ''chargepoints'' (JList (xs @ [cp])) r)"
    by blast
  have "''chargepoints'' \<in> fst ` set r"
    using assms(3) by (metis map_of_SomeD fst_conv image_eqI)
  then have "map fst (dict_set ''chargepoints'' (JList (xs @ [cp])) r) = map fst r"
    by (simp add: keys_dict_set)
  then show ?thesis
    using step d' by (auto simp: map_of_dict_set)
qed

theorem later_entry_only_appends_witness:
  "station_identity cp_c = Some (KStr ''S1'') \<and>
   map_of stations_one (KStr ''S1'') = Some record_one \<and>
   map_of record_one ''chargepoints'' = Some (JList [cp_a]) \<and>
   (\<exists>d' r'. add_chargepoint stations_one cp_c = (d', None) \<and>
      map fst d' = [KStr ''S1''] \<and>
      map_of d' (KStr ''S1'') = Some r' \<and>
      map fst r' = [''id'', ''name'', ''chargepoints''] \<and>
      map_of r' ''name'' = Some (JStr ''North'') \<and>
      map_of r' ''chargepoints'' = Some (JList [cp_a, cp_c]))"
proof -
  have h1: "station_identity cp_c = Some (KStr ''S1'')"
    by (rule example_identities)
  have h2: "map_of stations_one (KStr ''S1'') = Some record_one"
    by (simp add: stations_one_def)
  have h3: "map_of record_one ''chargepoints'' = Some (JList [cp_a])"
    by (simp add: record_one_def)
  from later_entry_only_appends [OF h1 h2 h3] obtain d' r' where
    "add_chargepoint stations_one cp_c = (d', None)"
    "map fst d' = map fst stations_one"
    "map_of d' = (map_of stations_one)(KStr ''S1'' \<mapsto> r')"
    "map fst r' = map fst record_one"
    "map_of r' = (map_of record_one)(''chargepoints'' \<mapsto> JList ([cp_a] @ [cp_c]))"
    by blast
  then have "add_chargepoint stations_one cp_c = (d', None) \<and>
      map fst d' = [KStr ''S1''] \<and>
      map_of d' (KStr ''S1'') = Some r' \<and>
      map fst r' = [''id'', ''name'', ''chargepoints''] \<and>
      map_of r' ''name'' = Some (JStr ''North'') \<and>
      map_of r' ''chargepoints'' = Some (JList [cp_a, cp_c])"
    by (simp add: stations_one_def record_one_def)
  then have "\<exists>d' r'. add_chargepoint stations_one cp_c = (d', None) \<and>
      map fst d' = [KStr ''S1''] \<and>
      map_of d' (KStr ''S1'') = Some r' \<and>
      map fst r' = [''id'', ''name'', ''chargepoints''] \<and>
      map_of r' ''name'' = Some (JStr ''North'') \<and>
      map_of r' ''chargepoints'' = Some (JList [cp_a, cp_c])"
    by (intro exI)
  with h1 h2 h3 show ?thesis by (intro conjI)
qed

section \<open>Extraction, enrichment and flattening against their specification\<close>

lemma flatten_wrapped_concat:
  "flatten_wrapped acc xs = acc @ concat (map nested_chargepoints xs)"
  by (induction xs arbitrary: acc)
     (auto simp: nested_chargepoints_def split: json.splits option.splits)

lemma extract_chargepoints_shape:
  "extract_chargepoints st =
     (case dict_get st ''chargepoints'' of
        JList cps \<Rightarrow> if direct_shape cps then cps else concat (map nested_chargepoints cps)
      | _ \<Rightarrow> [])"
  by (auto simp: extract_chargepoints_def direct_shape_def flatten_wrapped_concat
           split: json.splits list.splits)

lemma add_protocol_spec: "add_protocol cs c ps = ps \<union> protocol_strings cs (JDict c)"
  by (auto simp: add_protocol_def protocol_strings_def Let_def split: json.splits)

lemma add_equipment_spec: "add_equipment cs c es = es \<union> equipment_strings cs (JDict c)"
  by (auto simp: add_equipment_def equipment_strings_def Let_def py_or_def)

lemma add_mode_spec: "add_mode cs c ms = ms \<union> mode_strings cs (JDict c)"
  by (auto simp: add_mode_def mode_strings_def Let_def py_or_def)

lemma summarise_spec:
  "summarise cs cps s =
     (if list_all is_dict cps
      then Inr \<lparr>protocols = protocols s \<union> (\<Union>cp\<in>set cps. protocol_strings cs cp),
                modes = modes s \<union> (\<Union>cp\<in>set cps. mode_strings cs cp),
                equipments = equipments s \<union> (\<Union>cp\<in>set cps. equipment_strings cs cp)\<rparr>
      else Inl AttributeError)"
proof (induction cps arbitrary: s)
  case Nil
  then show ?case by simp
next
  case (Cons cp cps)
  show ?case
  proof (cases cp)
    case (JDict c)
    then show ?thesis
      by (simp add: Cons.IH is_dict_def add_protocol_spec add_mode_spec add_equipment_spec Un_assoc)
  qed (simp_all add: is_dict_def)
qed


lemma dict_get_set_same: "dict_get (dict_set k v r) k = v"
  by (simp add: dict_get_def map_of_dict_set)

lemma dict_get_set_other: "k' \<noteq> k \<Longrightarrow> dict_get (dict_set k v r) k' = dict_get r k'"
  by (simp add: dict_get_def map_of_dict_set)

lemma map_of_dict_del_other: "k' \<noteq> k \<Longrightarrow> map_of (dict_del k r) k' = map_of r k'"
  by (induction r) auto

lemma dict_get_del_other: "k' \<noteq> k \<Longrightarrow> dict_get (dict_del k r) k' = dict_get r k'"
  by (simp add: dict_get_def map_of_dict_del_other)

lemma extract_chargepoints_cong:
  "dict_get st1 ''chargepoints'' = dict_get st2 ''chargepoints'' \<Longrightarrow>
   extract_chargepoints st1 = extract_chargepoints st2"
  by (simp add: extract_chargepoints_def)

lemma enrich_station_Inl:
  "\<not> list_all is_dict (extract_chargepoints st) \<Longrightarrow> enrich_station cs st = Inl AttributeError"
  by (simp add: enrich_station_def summarise_spec)

lemma enrich_station_Inr:
  assumes "list_all is_dict (extract_chargepoints st)"
  shows "\<exists>st'. enrich_station cs st = Inr st' \<and>
           dict_get st' ''chargepoints'' = dict_get st ''chargepoints'' \<and>
           derived_strings st' =
             (summary_field (\<Union>cp\<in>set (extract_chargepoints st). protocol_strings cs cp),
              summary_field (\<Union>cp\<in>set (extract_chargepoints st). mode_strings cs cp),
              summary_field (\<Union>cp\<in>set (extract_chargepoints st). equipment_strings cs cp))"
  using assms
  by (simp add: enrich_station_def summarise_spec empty_summary_def Let_def derived_strings_def
        summary_field_def dict_get_set_same dict_get_set_other dict_get_del_other)

lemma enrich_station_cases:
  "enrich_station cs st = Inr st' \<Longrightarrow> list_all is_dict (extract_chargepoints st)"
  using enrich_station_Inl [of st cs] by (cases "list_all is_dict (extract_chargepoints st)") auto

lemma finite_protocol_strings: "finite (protocol_strings cs cp)"
  by (auto simp: protocol_strings_def split: json.splits)

lemma finite_equipment_strings: "finite (equipment_strings cs cp)"
  by (auto simp: equipment_strings_def split: json.splits option.splits)

lemma finite_mode_strings: "finite (mode_strings cs cp)"
  by (auto simp: mode_strings_def split: json.splits option.splits)

lemma summary_field_sorted:
  "finite S \<Longrightarrow> \<exists>xs. sorted_wrt (<) xs \<and> set xs = S \<and> summary_field S = JStr (join '', '' xs)"
  by (rule exI [of _ "sorted_list_of_set S"]) (simp add: summary_field_def strict_sorted_iff)

lemma append_rows_spec:
  "append_rows st cps acc =
     (if list_all is_dict cps then Inr (acc @ map (row_of st) cps) else Inl AttributeError)"
proof (induction cps arbitrary: acc)
  case Nil
  then show ?case by simp
next
  case (Cons cp cps)
  show ?case
    by (cases cp) (simp_all add: Cons.IH is_dict_def row_of_def)
qed

lemma build_flat_rows_spec:
  "list_all (\<lambda>st. list_all is_dict (extract_chargepoints st)) sts \<Longrightarrow>
   build_flat_rows sts acc = Inr (acc @ concat (map rows_of_station sts))"
  by (induction sts arbitrary: acc) (simp_all add: Let_def append_rows_spec rows_of_station_def)

lemma length_rows_of_station:
  "length (rows_of_station st) = max 1 (length (extract_chargepoints st))"
  by (cases "extract_chargepoints st") (simp_all add: rows_of_station_def)

lemma enrich_all_extracted:
  "enrich_all cs sts = Inr enriched \<Longrightarrow>
   list_all (\<lambda>st. list_all is_dict (extract_chargepoints st)) enriched \<and>
   map extract_chargepoints enriched = map extract_chargepoints sts"
proof (induction sts arbitrary: enriched)
  case Nil
  then show ?case by simp
next
  case (Cons st sts)
  from Cons.prems obtain st' rest' where
    e: "enrich_station cs st = Inr st'" and r: "enrich_all cs sts = Inr rest'"
    and en: "enriched = st' # rest'"
    by (auto split: sum.splits)
  have a: "list_all is_dict (extract_chargepoints st)"
    using e by (rule enrich_station_cases)
  from enrich_station_Inr [OF a, of cs] obtain st'' where
    "enrich_station cs st = Inr st''" "dict_get st'' ''chargepoints'' = dict_get st ''chargepoints''"
    by blast
  with e have "dict_get st' ''chargepoints'' = dict_get st ''chargepoints''" by simp
  then have x: "extract_chargepoints st' = extract_chargepoints st"
    by (rule extract_chargepoints_cong)
  show ?case using Cons.IH [OF r] a x en by simp
qed

lemma placeholder_row_fields:
  "dict_get (placeholder_row st) ''Charging Equipment'' = JStr [] \<and>
   dict_get (placeholder_row st) ''Charging Protocol'' = JStr [] \<and>
   dict_get (placeholder_row st) ''EVCS mode'' = JStr []"
  by (simp add: placeholder_row_def dict_get_set_same dict_get_set_other)

lemma key_set_dict_set: "fst ` set (dict_set k v r) = insert k (fst ` set r)"
  by (induction r) auto

lemma select_all_known:
  "list_all (\<lambda>c. c \<in> set cols) (ps @ filter (\<lambda>c. c \<notin> set ps) cols) = (set ps \<subseteq> set cols)"
  by (auto simp: list_all_iff)

lemma reorder_columns_spec:
  "reorder_columns df =
     (if set priority_cols \<subseteq> set (columns df)
      then Inr \<lparr>columns = priority_cols @ filter (\<lambda>c. c \<notin> set priority_cols) (columns df),
               records = records df\<rparr>
      else Inl KeyError)"
  unfolding reorder_columns_def select_columns_def Let_def select_all_known by (rule refl)

lemma keys_flat_row: "fst ` set (flat_row st c) = fst ` set st \<union> set charge_point_cols"
  unfolding flat_row_def key_set_dict_set charge_point_cols_def by auto

lemma keys_placeholder_row:
  "fst ` set (placeholder_row st) = fst ` set st \<union> set charge_point_cols"
  unfolding placeholder_row_def key_set_dict_set charge_point_cols_def by auto

lemma keys_row_of:
  "is_dict cp \<Longrightarrow> fst ` set (row_of st cp) = fst ` set st \<union> set charge_point_cols"
  by (cases cp) (simp_all add: is_dict_def row_of_def keys_flat_row)

lemma keys_of_station_row:
  assumes "list_all is_dict (extract_chargepoints st)" and "r \<in> set (rows_of_station st)"
  shows "fst ` set r = fst ` set st \<union> set charge_point_cols"
proof (cases "extract_chargepoints st = []")
  case True
  with assms(2) have "r = placeholder_row st" by (simp add: rows_of_station_def)
  then show ?thesis by (simp only: keys_placeholder_row)
next
  case False
  with assms(2) obtain cp where "cp \<in> set (extract_chargepoints st)" "r = row_of st cp"
    by (auto simp: rows_of_station_def)
  moreover from this assms(1) have "is_dict cp" by (simp add: list_all_iff)
  ultimately show ?thesis by (simp only: keys_row_of)
qed

lemma rows_of_station_nonempty: "rows_of_station st \<noteq> []"
  by (simp add: rows_of_station_def)

lemma keys_of_all_rows:
  assumes "list_all (\<lambda>st. list_all is_dict (extract_chargepoints st)) sts" and "sts \<noteq> []"
  shows "(\<Union>r\<in>set (concat (map rows_of_station sts)). fst ` set r) =
           (\<Union>st\<in>set sts. fst ` set st) \<union> set charge_point_cols"
proof (intro equalityI subsetI)
  fix x
  assume "x \<in> (\<Union>r\<in>set (concat (map rows_of_station sts)). fst ` set r)"
  then obtain st r where m: "st \<in> set sts" "r \<in> set (rows_of_station st)" "x \<in> fst ` set r"
    by auto
  from m(1) assms(1) have "list_all is_dict (extract_chargepoints st)"
    by (simp add: list_all_iff)
  from keys_of_station_row [OF this m(2)] m(3)
  have "x \<in> fst ` set st \<union> set charge_point_cols" by simp
  with m(1) show "x \<in> (\<Union>st\<in>set sts. fst ` set st) \<union> set charge_point_cols" by blast
next
  fix x
  assume x: "x \<in> (\<Union>st\<in>set sts. fst ` set st) \<union> set charge_point_cols"
  have "\<exists>st\<in>set sts. x \<in> fst ` set st \<union> set charge_point_cols"
  proof (cases "x \<in> set charge_point_cols")
    case True
    from assms(2) obtain st where "st \<in> set sts" by (cases sts) auto
    with True show ?thesis by blast
  next
    case False
    with x show ?thesis by blast
  qed
  then obtain st where m: "st \<in> set sts" "x \<in> fst ` set st \<union> set charge_point_cols" by blast
  from m(1) assms(1) have d: "list_all is_dict (extract_chargepoints st)"
    by (simp add: list_all_iff)
  obtain r where r: "r \<in> set (rows_of_station st)"
    using rows_of_station_nonempty [of st] by (cases "rows_of_station st") auto
  from keys_of_station_row [OF d r] m(2) have "x \<in> fst ` set r" by simp
  with m(1) r show "x \<in> (\<Union>r\<in>set (concat (map rows_of_station sts)). fst ` set r)"
    by auto
qed

lemma priority_cols_split:
  "set priority_cols = set station_level_priority_cols \<union> set charge_point_cols"
  unfolding priority_cols_def station_level_priority_cols_def charge_point_cols_def by auto

lemma priority_cols_disjoint:
  "set station_level_priority_cols \<inter> set charge_point_cols = {}"
  unfolding station_level_priority_cols_def charge_point_cols_def by simp

lemma columns_data_frame:
  "set (columns (data_frame rows)) = (\<Union>r\<in>set rows. fst ` set r)"
  by (simp add: data_frame_def)

lemma subset_modulo:
  "A \<inter> T = {} \<Longrightarrow> (A \<union> T \<subseteq> K \<union> T) = (A \<subseteq> K)"
  by blast


section \<open>Properties of the Summary Enricher\<close>

lemma set_extract_chargepoints:
  "dict_get st ''chargepoints'' = JList xs \<Longrightarrow>
   set (extract_chargepoints st) =
     (if direct_shape xs then set xs else (\<Union>x\<in>set xs. set (nested_chargepoints x)))"
  by (simp add: extract_chargepoints_shape)

lemma derived_strings_by_set:
  assumes "set (extract_chargepoints st1) = set (extract_chargepoints st2)"
  shows "map_sum id derived_strings (enrich_station cs st1) =
         map_sum id derived_strings (enrich_station cs st2)"
proof (cases "list_all is_dict (extract_chargepoints st1)")
  case True
  then have t2: "list_all is_dict (extract_chargepoints st2)"
    using assms by (simp add: list_all_iff)
  from enrich_station_Inr [OF True, of cs] obtain a where
    a: "enrich_station cs st1 = Inr a"
      "derived_strings a =
         (summary_field (\<Union>cp\<in>set (extract_chargepoints st1). protocol_strings cs cp),
          summary_field (\<Union>cp\<in>set (extract_chargepoints st1). mode_strings cs cp),
          summary_field (\<Union>cp\<in>set (extract_chargepoints st1). equipment_strings cs cp))"
    by blast
  from enrich_station_Inr [OF t2, of cs] obtain b where
    b: "enrich_station cs st2 = Inr b"
      "derived_strings b =
         (summary_field (\<Union>cp\<in>set (extract_chargepoints st2). protocol_strings cs cp),
          summary_field (\<Union>cp\<in>set (extract_chargepoints st2). mode_strings cs cp),
          summary_field (\<Union>cp\<in>set (extract_chargepoints st2). equipment_strings cs cp))"
    by blast
  have "derived_strings a = derived_strings b"
    unfolding a(2) b(2) assms by (rule refl)
  then show ?thesis by (simp add: a(1) b(1))
next
  case False
  then have f2: "\<not> list_all is_dict (extract_chargepoints st2)"
    using assms by (simp add: list_all_iff)
  show ?thesis
    by (simp add: enrich_station_Inl [OF False] enrich_station_Inl [OF f2])
qed

lemma enrich_station_keeps_chargepoints:
  assumes "enrich_station cs st = Inr st'"
  shows "dict_get st' ''chargepoints'' = dict_get st ''chargepoints''"
proof -
  have a: "list_all is_dict (extract_chargepoints st)"
    using assms by (rule enrich_station_cases)
  from enrich_station_Inr [OF a, of cs] obtain st'' where
    "enrich_station cs st = Inr st''" "dict_get st'' ''chargepoints'' = dict_get st ''chargepoints''"
    by blast
  with assms show ?thesis by simp
qed

text \<open>
  Claim C3, as amended. Running the Enricher again on an enriched record succeeds and
  yields the same three derived strings. For two records whose stored charge-point lists
  are permutations of each other and on which the shape decision on the first element is
  the same, the outcome of the Enricher (the three derived strings, or the exception) is
  the same.
\<close>

theorem enricher_idempotent_and_order_independent:
  "(enrich_station cs st = Inr st' \<longrightarrow>
      (\<exists>st''. enrich_station cs st' = Inr st'' \<and> derived_strings st'' = derived_strings st')) \<and>
   (dict_get st1 ''chargepoints'' = JList xs \<and> dict_get st2 ''chargepoints'' = JList ys \<and>
    mset xs = mset ys \<and> direct_shape xs = direct_shape ys \<longrightarrow>
      map_sum id derived_strings (enrich_station cs st1) =
      map_sum id derived_strings (enrich_station cs st2))"
proof (intro conjI impI)
  assume e: "enrich_station cs st = Inr st'"
  then have c: "dict_get st' ''chargepoints'' = dict_get st ''chargepoints''"
    by (rule enrich_station_keeps_chargepoints)
  have "extract_chargepoints st' = extract_chargepoints st"
    using c by (rule extract_chargepoints_cong)
  then have "set (extract_chargepoints st') = set (extract_chargepoints st)"
    by (rule arg_cong)
  from derived_strings_by_set [OF this, of cs] e
  have m: "map_sum id derived_strings (enrich_station cs st') = Inr (derived_strings st')"
    by simp
  then obtain st'' where "enrich_station cs st' = Inr st''"
    by (cases "enrich_station cs st'") auto
  with m show "\<exists>st''. enrich_station cs st' = Inr st'' \<and> derived_strings st'' = derived_strings st'"
    by auto
next
  assume h: "dict_get st1 ''chargepoints'' = JList xs \<and> dict_get st2 ''chargepoints'' = JList ys \<and>
    mset xs = mset ys \<and> direct_shape xs = direct_shape ys"
  then have s: "set xs = set ys" by (auto dest: mset_eq_setD)
  have "set (extract_chargepoints st1) = set (extract_chargepoints st2)"
    using h s by (simp add: set_extract_chargepoints)
  then show "map_sum id derived_strings (enrich_station cs st1) =
      map_sum id derived_strings (enrich_station cs st2)"
    by (rule derived_strings_by_set)
qed

theorem enricher_idempotent_and_order_independent_witness:
  "enrich_station no_container_str station_ac = Inr enriched_ac \<and>
   (\<exists>st''. enrich_station no_container_str enriched_ac = Inr st'' \<and>
      derived_strings st'' = derived_strings enriched_ac) \<and>
   dict_get station_ac ''chargepoints'' = JList [cp_a, cp_c] \<and>
   dict_get station_ca ''chargepoints'' = JList [cp_c, cp_a] \<and>
   mset [cp_a, cp_c] = mset [cp_c, cp_a] \<and>
   direct_shape [cp_a, cp_c] = direct_shape [cp_c, cp_a] \<and>
   map_sum id derived_strings (enrich_station no_container_str station_ac) =
   map_sum id derived_strings (enrich_station no_container_str station_ca)"
proof -
  have h1: "enrich_station no_container_str station_ac = Inr enriched_ac"
    by code_simp
  have h2: "dict_get station_ac ''chargepoints'' = JList [cp_a, cp_c]"
    by code_simp
  have h3: "dict_get station_ca ''chargepoints'' = JList [cp_c, cp_a]"
    by code_simp
  have h4: "mset [cp_a, cp_c] = mset [cp_c, cp_a]"
    by simp
  have h5: "direct_shape [cp_a, cp_c] = direct_shape [cp_c, cp_a]"
    by code_simp
  note t = enricher_idempotent_and_order_independent
    [where cs = no_container_str and st = station_ac and st' = enriched_ac
       and ?st1.0 = station_ac and xs = "[cp_a, cp_c]" and ?st2.0 = station_ca
       and ys = "[cp_c, cp_a]"]
  have c1: "\<exists>st''. enrich_station no_container_str enriched_ac = Inr st'' \<and>
      derived_strings st'' = derived_strings enriched_ac"
    using t h1 by blast
  have c2: "map_sum id derived_strings (enrich_station no_container_str station_ac) =
   map_sum id derived_strings (enrich_station no_container_str station_ca)"
    using t h2 h3 h4 h5 by blast
  from h1 c1 h2 h3 h4 h5 c2 show ?thesis by (intro conjI)
qed

text \<open>The claim as stated fails on order-independence: the same two entries of one
  station, aggregated in either order, give two records whose charge-point lists are
  permutations of each other; with the entry that carries a mode first the derived modes
  and equipments are \<^verbatim>\<open>AC\<close> and \<^verbatim>\<open>E1\<close>, with the other entry first all three derived
  strings are empty.\<close>

theorem enricher_order_counterexample:
  "add_all [] [cp_mode, cp_equipment] = ([(KStr ''S9'', station_mode_first)], None) \<and>
   add_all [] [cp_equipment, cp_mode] = ([(KStr ''S9'', station_equipment_first)], None) \<and>
   dict_get station_mode_first ''chargepoints'' = JList [cp_mode, cp_equipment] \<and>
   dict_get station_equipment_first ''chargepoints'' = JList [cp_equipment, cp_mode] \<and>
   mset [cp_equipment, cp_mode] = mset [cp_mode, cp_equipment] \<and>
   map_sum id derived_strings (enrich_station no_container_str station_mode_first) =
     Inr (JStr [], JStr ''AC'', JStr ''E1'') \<and>
   map_sum id derived_strings (enrich_station no_container_str station_equipment_first) =
     Inr (JStr [], JStr [], JStr [])"
proof -
  have x: "add_all [] [cp_mode, cp_equipment] = ([(KStr ''S9'', station_mode_first)], None)"
    by code_simp
  have y: "add_all [] [cp_equipment, cp_mode] = ([(KStr ''S9'', station_equipment_first)], None)"
    by code_simp
  have a: "dict_get station_mode_first ''chargepoints'' = JList [cp_mode, cp_equipment]"
    by code_simp
  have b: "dict_get station_equipment_first ''chargepoints'' = JList [cp_equipment, cp_mode]"
    by code_simp
  have c: "mset [cp_equipment, cp_mode] = mset [cp_mode, cp_equipment]"
    by simp
  have d: "map_sum id derived_strings (enrich_station no_container_str station_mode_first) =
     Inr (JStr [], JStr ''AC'', JStr ''E1'')"
    by code_simp
  have e: "map_sum id derived_strings (enrich_station no_container_str station_equipment_first) =
     Inr (JStr [], JStr [], JStr [])"
    by code_simp
  from x y a b c d e show ?thesis by (intro conjI)
qed

lemma summary_field_empty: "summary_field {} = JStr []"
  by (simp add: summary_field_def)

lemma summary_field_ccs_type2: "summary_field {''CCS'', ''Type2''} = JStr ''CCS, Type2''"
  by code_simp

lemma derived_strings_fields:
  "derived_strings st = (a, b, c) \<Longrightarrow>
   dict_get st ''Charging Protocols'' = a \<and> dict_get st ''EVCS Modes'' = b \<and>
   dict_get st ''Charging Equipments'' = c"
  by (simp add: derived_strings_def)

lemma finite_UN_strings:
  "finite (\<Union>cp\<in>set xs. protocol_strings cs cp)"
  "finite (\<Union>cp\<in>set xs. mode_strings cs cp)"
  "finite (\<Union>cp\<in>set xs. equipment_strings cs cp)"
  by (simp_all add: finite_protocol_strings finite_mode_strings finite_equipment_strings)

text \<open>
  Claim C5, as amended. When the Enricher succeeds on a record, each of the three fields
  is the comma-join of the strictly sorted list of the stringified values gathered from
  the extracted charge-points of the record (protocols from a scalar or from every
  element of a list, equipment and mode by first non-empty field). For a record whose
  stored list is a charge-point with protocol \<^verbatim>\<open>"CCS"\<close> followed by one with protocol
  \<^verbatim>\<open>["CCS","Type2"]\<close>, and whose first charge-point carries a \<^verbatim>\<open>mode\<close> or
  \<^verbatim>\<open>id_or_serial_number\<close> key, the protocols field is \<^verbatim>\<open>CCS, Type2\<close>.
\<close>

theorem enricher_fields:
  "(enrich_station cs st = Inr st' \<longrightarrow>
      (\<exists>ps ms es.
         sorted_wrt (<) ps \<and>
         set ps = (\<Union>cp\<in>set (extract_chargepoints st). protocol_strings cs cp) \<and>
         dict_get st' ''Charging Protocols'' = JStr (join '', '' ps) \<and>
         sorted_wrt (<) ms \<and>
         set ms = (\<Union>cp\<in>set (extract_chargepoints st). mode_strings cs cp) \<and>
         dict_get st' ''EVCS Modes'' = JStr (join '', '' ms) \<and>
         sorted_wrt (<) es \<and>
         set es = (\<Union>cp\<in>set (extract_chargepoints st). equipment_strings cs cp) \<and>
         dict_get st' ''Charging Equipments'' = JStr (join '', '' es))) \<and>
   (dict_get st ''chargepoints'' = JList [JDict c1, JDict c2] \<and> is_direct (JDict c1) \<and>
    dict_get c1 ''charging_protocol'' = JStr ''CCS'' \<and>
    dict_get c2 ''charging_protocol'' = JList [JStr ''CCS'', JStr ''Type2''] \<longrightarrow>
      (\<exists>st'. enrich_station cs st = Inr st' \<and>
         dict_get st' ''Charging Protocols'' = JStr ''CCS, Type2''))"
proof (intro conjI impI)
  assume e: "enrich_station cs st = Inr st'"
  then have a: "list_all is_dict (extract_chargepoints st)"
    by (rule enrich_station_cases)
  let ?P = "\<Union>cp\<in>set (extract_chargepoints st). protocol_strings cs cp"
  let ?M = "\<Union>cp\<in>set (extract_chargepoints st). mode_strings cs cp"
  let ?E = "\<Union>cp\<in>set (extract_chargepoints st). equipment_strings cs cp"
  from enrich_station_Inr [OF a, of cs] obtain st2 where
    "enrich_station cs st = Inr st2"
    "derived_strings st2 = (summary_field ?P, summary_field ?M, summary_field ?E)"
    by blast
  with e have "derived_strings st' = (summary_field ?P, summary_field ?M, summary_field ?E)"
    by simp
  note d = derived_strings_fields [OF this]
  note f = d [THEN conjunct1] d [THEN conjunct2, THEN conjunct1] d [THEN conjunct2, THEN conjunct2]
  obtain ps where
    ps: "sorted_wrt (<) ps \<and> set ps = ?P \<and> summary_field ?P = JStr (join '', '' ps)"
    using summary_field_sorted [OF finite_UN_strings(1)] ..
  obtain ms where
    ms: "sorted_wrt (<) ms \<and> set ms = ?M \<and> summary_field ?M = JStr (join '', '' ms)"
    using summary_field_sorted [OF finite_UN_strings(2)] ..
  obtain es where
    es: "sorted_wrt (<) es \<and> set es = ?E \<and> summary_field ?E = JStr (join '', '' es)"
    using summary_field_sorted [OF finite_UN_strings(3)] ..
  have "sorted_wrt (<) ps \<and> set ps = ?P \<and>
         dict_get st' ''Charging Protocols'' = JStr (join '', '' ps) \<and>
         sorted_wrt (<) ms \<and> set ms = ?M \<and>
         dict_get st' ''EVCS Modes'' = JStr (join '', '' ms) \<and>
         sorted_wrt (<) es \<and> set es = ?E \<and>
         dict_get st' ''Charging Equipments'' = JStr (join '', '' es)"
    unfolding f using ps ms es by (simp only: simp_thms)
  then show "\<exists>ps ms es.
         sorted_wrt (<) ps \<and> set ps = ?P \<and>
         dict_get st' ''Charging Protocols'' = JStr (join '', '' ps) \<and>
         sorted_wrt (<) ms \<and> set ms = ?M \<and>
         dict_get st' ''EVCS Modes'' = JStr (join '', '' ms) \<and>
         sorted_wrt (<) es \<and> set es = ?E \<and>
         dict_get st' ''Charging Equipments'' = JStr (join '', '' es)"
    by (intro exI)
next
  assume h: "dict_get st ''chargepoints'' = JList [JDict c1, JDict c2] \<and> is_direct (JDict c1) \<and>
    dict_get c1 ''charging_protocol'' = JStr ''CCS'' \<and>
    dict_get c2 ''charging_protocol'' = JList [JStr ''CCS'', JStr ''Type2'']"
  then have x: "extract_chargepoints st = [JDict c1, JDict c2]"
    by (simp add: extract_chargepoints_def)
  then have a: "list_all is_dict (extract_chargepoints st)"
    by (simp add: is_dict_def)
  have p: "(\<Union>cp\<in>set (extract_chargepoints st). protocol_strings cs cp) = {''CCS'', ''Type2''}"
    unfolding x using h by (simp add: protocol_strings_def insert_commute)
  from enrich_station_Inr [OF a, of cs] obtain st2 where
    s: "enrich_station cs st = Inr st2"
    "derived_strings st2 =
       (summary_field (\<Union>cp\<in>set (extract_chargepoints st). protocol_strings cs cp),
        summary_field (\<Union>cp\<in>set (extract_chargepoints st). mode_strings cs cp),
        summary_field (\<Union>cp\<in>set (extract_chargepoints st). equipment_strings cs cp))"
    by blast
  from derived_strings_fields [OF s(2)]
  have "dict_get st2 ''Charging Protocols'' = summary_field {''CCS'', ''Type2''}"
    unfolding p by (rule conjunct1)
  then have "dict_get st2 ''Charging Protocols'' = JStr ''CCS, Type2''"
    by (simp only: summary_field_ccs_type2)
  with s(1) show "\<exists>st'. enrich_station cs st = Inr st' \<and>
         dict_get st' ''Charging Protocols'' = JStr ''CCS, Type2''"
    by blast
qed

theorem enricher_fields_witness:
  "enrich_station no_container_str station_s1_serial = Inr enriched_s1_serial \<and>
   dict_get station_s1_serial ''chargepoints'' = JList [JDict ccs_serial, JDict ccs_type2] \<and>
   is_direct (JDict ccs_serial) \<and>
   dict_get ccs_serial ''charging_protocol'' = JStr ''CCS'' \<and>
   dict_get ccs_type2 ''charging_protocol'' = JList [JStr ''CCS'', JStr ''Type2''] \<and>
   (\<exists>ps. sorted_wrt (<) ps \<and>
      set ps = (\<Union>cp\<in>set (extract_chargepoints station_s1_serial).
                 protocol_strings no_container_str cp) \<and>
      dict_get enriched_s1_serial ''Charging Protocols'' = JStr (join '', '' ps)) \<and>
   (\<exists>st'. enrich_station no_container_str station_s1_serial = Inr st' \<and>
      dict_get st' ''Charging Protocols'' = JStr ''CCS, Type2'')"
proof -
  have h1: "enrich_station no_container_str station_s1_serial = Inr enriched_s1_serial"
    by code_simp
  have h2: "dict_get station_s1_serial ''chargepoints'' = JList [JDict ccs_serial, JDict ccs_type2]"
    by code_simp
  have h3: "is_direct (JDict ccs_serial)"
    by code_simp
  have h4: "dict_get ccs_serial ''charging_protocol'' = JStr ''CCS''"
    by code_simp
  have h5: "dict_get ccs_type2 ''charging_protocol'' = JList [JStr ''CCS'', JStr ''Type2'']"
    by code_simp
  note t = enricher_fields
    [where cs = no_container_str and st = station_s1_serial and st' = enriched_s1_serial
       and ?c1.0 = ccs_serial and ?c2.0 = ccs_type2]
  from t [THEN conjunct1, THEN mp, OF h1] obtain ps ms es where
    "sorted_wrt (<) ps \<and>
     set ps = (\<Union>cp\<in>set (extract_chargepoints station_s1_serial).
                 protocol_strings no_container_str cp) \<and>
     dict_get enriched_s1_serial ''Charging Protocols'' = JStr (join '', '' ps) \<and>
     sorted_wrt (<) ms \<and>
     set ms = (\<Union>cp\<in>set (extract_chargepoints station_s1_serial).
                 mode_strings no_container_str cp) \<and>
     dict_get enriched_s1_serial ''EVCS Modes'' = JStr (join '', '' ms) \<and>
     sorted_wrt (<) es \<and>
     set es = (\<Union>cp\<in>set (extract_chargepoints station_s1_serial).
                 equipment_strings no_container_str cp) \<and>
     dict_get enriched_s1_serial ''Charging Equipments'' = JStr (join '', '' es)"
    by (elim exE)
  then have "sorted_wrt (<) ps \<and>
      set ps = (\<Union>cp\<in>set (extract_chargepoints station_s1_serial).
                 protocol_strings no_container_str cp) \<and>
      dict_get enriched_s1_serial ''Charging Protocols'' = JStr (join '', '' ps)"
    by (simp only: simp_thms)
  then have c1: "\<exists>ps. sorted_wrt (<) ps \<and>
      set ps = (\<Union>cp\<in>set (extract_chargepoints station_s1_serial).
                 protocol_strings no_container_str cp) \<and>
      dict_get enriched_s1_serial ''Charging Protocols'' = JStr (join '', '' ps)"
    by (intro exI)
  have c2: "\<exists>st'. enrich_station no_container_str station_s1_serial = Inr st' \<and>
      dict_get st' ''Charging Protocols'' = JStr ''CCS, Type2''"
    using t [THEN conjunct2, THEN mp] h2 h3 h4 h5 by (simp only: simp_thms)
  from h1 h2 h3 h4 h5 c1 c2 show ?thesis by (intro conjI)
qed

text \<open>The claim as stated fails on its scenario: the two entries of the specification's
  scenario are aggregated into one record for \<^verbatim>\<open>S1\<close>, and the Enricher leaves its
  protocols field empty, because the first entry has neither a \<^verbatim>\<open>mode\<close> nor an
  \<^verbatim>\<open>id_or_serial_number\<close> key.\<close>

theorem enricher_scenario_counterexample:
  "add_all [] [cp_ccs, cp_ccs_type2] = ([(KStr ''S1'', station_s1)], None) \<and>
   enrich_station no_container_str station_s1 = Inr enriched_s1 \<and>
   dict_get enriched_s1 ''Charging Protocols'' = JStr [] \<and>
   JStr [] \<noteq> JStr ''CCS, Type2''"
proof -
  have a: "add_all [] [cp_ccs, cp_ccs_type2] = ([(KStr ''S1'', station_s1)], None)"
    by code_simp
  have b: "enrich_station no_container_str station_s1 = Inr enriched_s1"
    by code_simp
  have c: "dict_get enriched_s1 ''Charging Protocols'' = JStr []"
    by code_simp
  have d: "JStr [] \<noteq> JStr ''CCS, Type2''"
    by simp
  from a b c d show ?thesis by (intro conjI)
qed

lemma concat_nested_empty:
  "list_all (\<lambda>c. nested_chargepoints c = []) cps \<Longrightarrow> concat (map nested_chargepoints cps) = []"
  by (induction cps) simp_all

lemma dict_has_iff: "dict_has d k \<longleftrightarrow> k \<in> fst ` set d"
  by (simp add: dict_has_def map_of_eq_None_iff)

text \<open>
  Claim C9. Charge-point extraction returns the empty list when the station's
  \<^verbatim>\<open>chargepoints\<close> value is missing, not a list or the empty list; the whole list when its
  first element is a record with a \<^verbatim>\<open>mode\<close> or \<^verbatim>\<open>id_or_serial_number\<close> key (which is what
  the test on the first element says); and otherwise
  the concatenation of the nested \<^verbatim>\<open>chargepoints\<close> lists of its elements. So for a list
  whose first element lacks both keys and whose elements hold no nested list, the
  extraction is empty, the Enricher writes three empty strings, and the flattened
  projection of the enriched record is its placeholder row alone.
\<close>

theorem extraction_decides_on_first_element:
  "extract_chargepoints st =
     (case dict_get st ''chargepoints'' of
        JList [] \<Rightarrow> []
      | JList (c # rest) \<Rightarrow>
          if is_direct c then c # rest else concat (map nested_chargepoints (c # rest))
      | _ \<Rightarrow> []) \<and>
   (is_direct c \<longleftrightarrow>
      (\<exists>cd. c = JDict cd \<and>
         (''mode'' \<in> fst ` set cd \<or> ''id_or_serial_number'' \<in> fst ` set cd))) \<and>
   (dict_get st ''chargepoints'' = JList (c # rest) \<and> \<not> is_direct c \<and>
    list_all (\<lambda>x. nested_chargepoints x = []) (c # rest) \<longrightarrow>
      extract_chargepoints st = [] \<and>
      (\<exists>st'. enrich_station cs st = Inr st' \<and>
         derived_strings st' = (JStr [], JStr [], JStr []) \<and>
         build_flat_rows [st'] [] = Inr [placeholder_row st'] \<and>
         flat_fields (placeholder_row st') = (JStr [], JStr [], JStr [])))"
proof (intro conjI impI)
  show "is_direct c \<longleftrightarrow>
      (\<exists>cd. c = JDict cd \<and>
         (''mode'' \<in> fst ` set cd \<or> ''id_or_serial_number'' \<in> fst ` set cd))"
    by (cases c) (simp_all add: is_direct_def dict_has_iff)
next
  show "extract_chargepoints st =
     (case dict_get st ''chargepoints'' of
        JList [] \<Rightarrow> []
      | JList (c # rest) \<Rightarrow>
          if is_direct c then c # rest else concat (map nested_chargepoints (c # rest))
      | _ \<Rightarrow> [])"
    by (simp add: extract_chargepoints_def flatten_wrapped_concat
          split: json.splits list.splits)
next
  assume h: "dict_get st ''chargepoints'' = JList (c # rest) \<and> \<not> is_direct c \<and>
    list_all (\<lambda>x. nested_chargepoints x = []) (c # rest)"
  then have "concat (map nested_chargepoints (c # rest)) = []"
    by (intro concat_nested_empty) (elim conjE)
  with h show x: "extract_chargepoints st = []"
    by (simp add: extract_chargepoints_def flatten_wrapped_concat)
  then have a: "list_all is_dict (extract_chargepoints st)"
    by simp
  from enrich_station_Inr [OF a, of cs] obtain st' where
    s: "enrich_station cs st = Inr st'"
      "dict_get st' ''chargepoints'' = dict_get st ''chargepoints''"
      "derived_strings st' =
         (summary_field (\<Union>cp\<in>set (extract_chargepoints st). protocol_strings cs cp),
          summary_field (\<Union>cp\<in>set (extract_chargepoints st). mode_strings cs cp),
          summary_field (\<Union>cp\<in>set (extract_chargepoints st). equipment_strings cs cp))"
    by (elim exE conjE)
  have d: "derived_strings st' = (JStr [], JStr [], JStr [])"
    using s(3) unfolding x by (simp add: summary_field_empty)
  have "extract_chargepoints st' = extract_chargepoints st"
    using s(2) by (rule extract_chargepoints_cong)
  then have x': "extract_chargepoints st' = []"
    using x by simp
  then have b: "build_flat_rows [st'] [] = Inr [placeholder_row st']"
    by simp
  have f: "flat_fields (placeholder_row st') = (JStr [], JStr [], JStr [])"
    using placeholder_row_fields [of st'] by (simp add: flat_fields_def)
  from s(1) d b f show "\<exists>st'. enrich_station cs st = Inr st' \<and>
         derived_strings st' = (JStr [], JStr [], JStr []) \<and>
         build_flat_rows [st'] [] = Inr [placeholder_row st'] \<and>
         flat_fields (placeholder_row st') = (JStr [], JStr [], JStr [])"
    by (intro exI [of _ st'] conjI)
qed

theorem extraction_decides_on_first_element_witness:
  "dict_get station_equipment_first ''chargepoints'' = JList (cp_equipment # [cp_mode]) \<and>
   \<not> is_direct cp_equipment \<and>
   list_all (\<lambda>x. nested_chargepoints x = []) (cp_equipment # [cp_mode]) \<and>
   extract_chargepoints station_equipment_first = [] \<and>
   (\<exists>st'. enrich_station no_container_str station_equipment_first = Inr st' \<and>
      derived_strings st' = (JStr [], JStr [], JStr []) \<and>
      build_flat_rows [st'] [] = Inr [placeholder_row st'] \<and>
      flat_fields (placeholder_row st') = (JStr [], JStr [], JStr []))"
proof -
  have h1: "dict_get station_equipment_first ''chargepoints'' = JList (cp_equipment # [cp_mode])"
    by code_simp
  have h2: "\<not> is_direct cp_equipment"
    by code_simp
  have h3: "list_all (\<lambda>x. nested_chargepoints x = []) (cp_equipment # [cp_mode])"
    by code_simp
  note t = extraction_decides_on_first_element
    [where st = station_equipment_first and c = cp_equipment and rest = "[cp_mode]"
       and cs = no_container_str, THEN conjunct2, THEN conjunct2, THEN mp]
  have c: "extract_chargepoints station_equipment_first = [] \<and>
   (\<exists>st'. enrich_station no_container_str station_equipment_first = Inr st' \<and>
      derived_strings st' = (JStr [], JStr [], JStr []) \<and>
      build_flat_rows [st'] [] = Inr [placeholder_row st'] \<and>
      flat_fields (placeholder_row st') = (JStr [], JStr [], JStr []))"
    using h1 h2 h3 by (intro t conjI)
  from h1 h2 h3 c show ?thesis by (intro conjI) (erule conjunct1 conjunct2 | assumption)+
qed

section \<open>Properties of the flattened projection\<close>

text \<open>
  Claim C4. For every enriched station list the flattened rows are built without an
  exception and are, station after station, the rows of each station: one row per
  extracted charge-point, or the single placeholder row, whose three charge-point fields
  are empty strings, when the extracted list is empty. Their number is the sum over the
  stations of the maximum of 1 and the number of extracted charge-points.
\<close>

theorem flat_row_count:
  assumes "enrich_all cs sts = Inr enriched"
  shows "build_flat_rows enriched [] = Inr (concat (map rows_of_station enriched)) \<and>
         length (concat (map rows_of_station enriched)) =
           sum_list (map (\<lambda>st. max 1 (length (extract_chargepoints st))) enriched) \<and>
         (\<forall>st. extract_chargepoints st = [] \<longrightarrow>
               rows_of_station st = [placeholder_row st] \<and>
               flat_fields (placeholder_row st) = (JStr [], JStr [], JStr [])) \<and>
         (\<forall>st. extract_chargepoints st \<noteq> [] \<longrightarrow>
               rows_of_station st = map (row_of st) (extract_chargepoints st))"
proof -
  have "list_all (\<lambda>st. list_all is_dict (extract_chargepoints st)) enriched"
    using enrich_all_extracted [OF assms] by simp
  then have "build_flat_rows enriched [] = Inr ([] @ concat (map rows_of_station enriched))"
    by (rule build_flat_rows_spec)
  then have b: "build_flat_rows enriched [] = Inr (concat (map rows_of_station enriched))"
    by simp
  have l: "length (concat (map rows_of_station enriched)) =
      sum_list (map (\<lambda>st. max 1 (length (extract_chargepoints st))) enriched)"
    by (induction enriched) (simp_all add: length_rows_of_station)
  have p: "\<forall>st. extract_chargepoints st = [] \<longrightarrow>
               rows_of_station st = [placeholder_row st] \<and>
               flat_fields (placeholder_row st) = (JStr [], JStr [], JStr [])"
    using placeholder_row_fields by (simp add: rows_of_station_def flat_fields_def)
  have q: "\<forall>st. extract_chargepoints st \<noteq> [] \<longrightarrow>
               rows_of_station st = map (row_of st) (extract_chargepoints st)"
    by (simp add: rows_of_station_def)
  from b l p q show ?thesis by (intro conjI)
qed

theorem flat_row_count_witness:
  "enrich_all no_container_str [station_mode_first, station_s1] =
     Inr [enriched_mode_first, enriched_s1] \<and>
   build_flat_rows [enriched_mode_first, enriched_s1] [] =
     Inr (concat (map rows_of_station [enriched_mode_first, enriched_s1])) \<and>
   length (concat (map rows_of_station [enriched_mode_first, enriched_s1])) = 3 \<and>
   extract_chargepoints enriched_s1 = [] \<and>
   rows_of_station enriched_s1 = [placeholder_row enriched_s1] \<and>
   flat_fields (placeholder_row enriched_s1) = (JStr [], JStr [], JStr []) \<and>
   extract_chargepoints enriched_mode_first = [cp_mode, cp_equipment] \<and>
   rows_of_station enriched_mode_first =
     map (row_of enriched_mode_first) (extract_chargepoints enriched_mode_first)"
proof -
  have h: "enrich_all no_container_str [station_mode_first, station_s1] =
     Inr [enriched_mode_first, enriched_s1]"
    by code_simp
  have e: "extract_chargepoints enriched_s1 = []"
    by code_simp
  have m: "extract_chargepoints enriched_mode_first = [cp_mode, cp_equipment]"
    by code_simp
  have n: "sum_list (map (\<lambda>st. max 1 (length (extract_chargepoints st)))
             [enriched_mode_first, enriched_s1]) = 3"
    by (simp add: e m)
  have ne: "extract_chargepoints enriched_mode_first \<noteq> []"
    by (simp add: m)
  note f = flat_row_count [OF h]
  have b: "build_flat_rows [enriched_mode_first, enriched_s1] [] =
     Inr (concat (map rows_of_station [enriched_mode_first, enriched_s1]))"
    using f by (rule conjunct1)
  have "length (concat (map rows_of_station [enriched_mode_first, enriched_s1])) =
      sum_list (map (\<lambda>st. max 1 (length (extract_chargepoints st)))
             [enriched_mode_first, enriched_s1])"
    using f by blast
  then have l: "length (concat (map rows_of_station [enriched_mode_first, enriched_s1])) = 3"
    by (rule trans) (rule n)
  have p: "rows_of_station enriched_s1 = [placeholder_row enriched_s1] \<and>
     flat_fields (placeholder_row enriched_s1) = (JStr [], JStr [], JStr [])"
    using f e by blast
  have q: "rows_of_station enriched_mode_first =
     map (row_of enriched_mode_first) (extract_chargepoints enriched_mode_first)"
    using f ne by blast
  from h b l e p m q show ?thesis by (intro conjI) (erule conjunct1 conjunct2 | assumption)+
qed

text \<open>
  Claim C2, as amended. For every non-empty enriched station list the flattened rows
  exist, and the column selection succeeds exactly when each of the four station-level
  priority columns is a key of at least one station; the columns of the flattened frame
  are then the seven priority columns in their fixed order, followed by the remaining
  columns in the order in which the rows first show them. Otherwise the selection raises
  \<^verbatim>\<open>KeyError\<close> and there is no flattened frame.
\<close>

theorem flattened_columns:
  assumes "enrich_all cs sts = Inr enriched" and "enriched \<noteq> []"
  shows "\<exists>rows. build_flat_rows enriched [] = Inr rows \<and>
           reorder_columns (data_frame rows) =
             (if set station_level_priority_cols \<subseteq> (\<Union>st\<in>set enriched. fst ` set st)
              then Inr \<lparr>columns =
                          priority_cols @
                          filter (\<lambda>c. c \<notin> set priority_cols)
                            (first_seen (concat (map (map fst) rows))),
                        records = rows\<rparr>
              else Inl KeyError)"
proof -
  let ?rows = "concat (map rows_of_station enriched)"
  have d: "list_all (\<lambda>st. list_all is_dict (extract_chargepoints st)) enriched"
    using enrich_all_extracted [OF assms(1)] by simp
  then have "build_flat_rows enriched [] = Inr ([] @ ?rows)"
    by (rule build_flat_rows_spec)
  then have b: "build_flat_rows enriched [] = Inr ?rows" by simp
  have "set (columns (data_frame ?rows)) =
          (\<Union>st\<in>set enriched. fst ` set st) \<union> set charge_point_cols"
    unfolding columns_data_frame by (rule keys_of_all_rows [OF d assms(2)])
  then have t: "(set priority_cols \<subseteq> set (columns (data_frame ?rows))) =
          (set station_level_priority_cols \<subseteq> (\<Union>st\<in>set enriched. fst ` set st))"
    by (simp only: priority_cols_split subset_modulo [OF priority_cols_disjoint])
  have c: "columns (data_frame ?rows) = first_seen (concat (map (map fst) ?rows))"
    by (simp add: data_frame_def)
  have r: "records (data_frame ?rows) = ?rows"
    by (simp add: data_frame_def)
  from t have t': "(set priority_cols \<subseteq> set (first_seen (concat (map (map fst) ?rows)))) =
          (set station_level_priority_cols \<subseteq> (\<Union>st\<in>set enriched. fst ` set st))"
    unfolding c .
  have "reorder_columns (data_frame ?rows) =
             (if set station_level_priority_cols \<subseteq> (\<Union>st\<in>set enriched. fst ` set st)
              then Inr \<lparr>columns =
                          priority_cols @
                          filter (\<lambda>c. c \<notin> set priority_cols)
                            (first_seen (concat (map (map fst) ?rows))),
                        records = ?rows\<rparr>
              else Inl KeyError)"
    unfolding reorder_columns_spec c r t' by (rule refl)
  with b show ?thesis by blast
qed

theorem flattened_columns_witness:
  "enrich_all no_container_str [station_full] = Inr [station_full @ summary_full] \<and>
   [station_full @ summary_full] \<noteq> [] \<and>
   set station_level_priority_cols \<subseteq> (\<Union>st\<in>set [station_full @ summary_full]. fst ` set st) \<and>
   (\<exists>rows. build_flat_rows [station_full @ summary_full] [] = Inr rows \<and>
      reorder_columns (data_frame rows) =
        Inr \<lparr>columns =
               priority_cols @
               filter (\<lambda>c. c \<notin> set priority_cols) (first_seen (concat (map (map fst) rows))),
             records = rows\<rparr>) \<and>
   reorder_columns (data_frame [station_full @ summary_full @ fields_full]) =
     Inr \<lparr>columns =
            priority_cols @
            [''address'', ''chargepoints'', ''Charging Protocols'', ''EVCS Modes'',
             ''Charging Equipments''],
          records = [station_full @ summary_full @ fields_full]\<rparr>"
proof -
  have h: "enrich_all no_container_str [station_full] = Inr [station_full @ summary_full]"
    by code_simp
  have ne: "[station_full @ summary_full] \<noteq> []"
    by simp
  have s: "set station_level_priority_cols \<subseteq>
             (\<Union>st\<in>set [station_full @ summary_full]. fst ` set st)"
    by code_simp
  have c: "reorder_columns (data_frame [station_full @ summary_full @ fields_full]) =
     Inr \<lparr>columns =
            priority_cols @
            [''address'', ''chargepoints'', ''Charging Protocols'', ''EVCS Modes'',
             ''Charging Equipments''],
          records = [station_full @ summary_full @ fields_full]\<rparr>"
    by code_simp
  from flattened_columns [OF h ne] s
  have "\<exists>rows. build_flat_rows [station_full @ summary_full] [] = Inr rows \<and>
      reorder_columns (data_frame rows) =
        Inr \<lparr>columns =
               priority_cols @
               filter (\<lambda>c. c \<notin> set priority_cols) (first_seen (concat (map (map fst) rows))),
             records = rows\<rparr>"
    by (simp only: if_True)
  with h ne s c show ?thesis by (intro conjI)
qed

text \<open>The claim as stated fails: an entry whose station record has no \<^verbatim>\<open>region\<close> key
  is aggregated, enriched and flattened, and the column selection raises \<^verbatim>\<open>KeyError\<close>
  instead of returning a frame with an empty \<^verbatim>\<open>region\<close> column.\<close>

theorem flattened_columns_counterexample:
  "add_all [] [cp_no_region] = ([(KInt 5, station_no_region)], None) \<and>
   enrich_all no_container_str [station_no_region] = Inr [station_no_region @ summary_full] \<and>
   build_flat_rows [station_no_region @ summary_full] [] =
     Inr [station_no_region @ summary_full @ fields_full] \<and>
   reorder_columns (data_frame [station_no_region @ summary_full @ fields_full]) = Inl KeyError"
proof -
  have z: "add_all [] [cp_no_region] = ([(KInt 5, station_no_region)], None)"
    by code_simp
  have a: "enrich_all no_container_str [station_no_region] = Inr [station_no_region @ summary_full]"
    by code_simp
  have b: "build_flat_rows [station_no_region @ summary_full] [] =
     Inr [station_no_region @ summary_full @ fields_full]"
    by code_simp
  have c: "reorder_columns (data_frame [station_no_region @ summary_full @ fields_full]) =
     Inl KeyError"
    by code_simp
  from z a b c show ?thesis by (intro conjI)
qed

section \<open>Properties of the response loop and of the run\<close>

lemma scan_requests_log:
  "scan_requests c rs (d, lg) =
     (fst (scan_requests c rs (d, [])), lg @ snd (scan_requests c rs (d, [])))"
proof (induction rs arbitrary: d lg)
  case Nil
  then show ?case by simp
next
  case (Cons r rs)
  show ?case
  proof (cases "is_station_response r")
    case False
    then show ?thesis using Cons.IH [of d lg] by simp
  next
    case True
    obtain d' eo where p: "process_response c d (body r) = (d', eo)"
      by (cases "process_response c d (body r)")
    show ?thesis
    proof (cases eo)
      case None
      with True p show ?thesis using Cons.IH [of d' lg] by simp
    next
      case (Some e)
      with True p show ?thesis
        using Cons.IH [of d' "lg @ [LogParseError e]"] Cons.IH [of d' "[LogParseError e]"]
        by simp
    qed
  qed
qed

lemma scan_requests_append:
  "scan_requests c (rs1 @ rs2) st = scan_requests c rs2 (scan_requests c rs1 st)"
proof (induction rs1 arbitrary: st)
  case Nil
  then show ?case by (cases st) simp
next
  case (Cons r rs1)
  obtain d lg where st: "st = (d, lg)" by (cases st)
  show ?case
    unfolding st by (simp add: Cons.IH split: prod.splits option.splits)
qed

lemma process_response_bad:
  "response_entries c raw = Inl e \<Longrightarrow> process_response c d raw = (d, Some e)"
  by (simp add: process_response_def)

lemma scan_requests_bad:
  assumes "is_station_response r"
    and "response_entries c (body r) = Inl e"
  shows "fst (scan_requests c (rs1 @ r # rs2) (d, lg)) = fst (scan_requests c (rs1 @ rs2) (d, lg))"
    and "snd (scan_requests c (rs1 @ r # rs2) (d, lg)) =
           snd (scan_requests c rs1 (d, lg)) @ LogParseError e #
           snd (scan_requests c rs2 (fst (scan_requests c rs1 (d, lg)), []))"
proof -
  obtain d1 lg1 where s1: "scan_requests c rs1 (d, lg) = (d1, lg1)"
    by (cases "scan_requests c rs1 (d, lg)")
  have "process_response c d1 (body r) = (d1, Some e)"
    using assms(2) by (rule process_response_bad)
  then have step: "scan_requests c (r # rs2) (d1, lg1) = scan_requests c rs2 (d1, lg1 @ [LogParseError e])"
    using assms(1) by simp
  have a: "scan_requests c (rs1 @ r # rs2) (d, lg) = scan_requests c rs2 (d1, lg1 @ [LogParseError e])"
    unfolding scan_requests_append s1 by (rule step)
  have b: "scan_requests c (rs1 @ rs2) (d, lg) = scan_requests c rs2 (d1, lg1)"
    unfolding scan_requests_append s1 by (rule refl)
  show "fst (scan_requests c (rs1 @ r # rs2) (d, lg)) = fst (scan_requests c (rs1 @ rs2) (d, lg))"
    unfolding a b
    by (subst scan_requests_log) (subst (2) scan_requests_log, simp)
  show "snd (scan_requests c (rs1 @ r # rs2) (d, lg)) =
           snd (scan_requests c rs1 (d, lg)) @ LogParseError e #
           snd (scan_requests c rs2 (fst (scan_requests c rs1 (d, lg)), []))"
    unfolding a s1 by (subst scan_requests_log) simp
qed

lemma fst_extract_station_data:
  "fst (extract_station_data c rs lg) =
     (if fst (scan_requests c rs ([], lg)) = [] then Inl NoStationData
      else Inr (map snd (fst (scan_requests c rs ([], lg)))))"
  by (simp add: extract_station_data_def Let_def split: prod.splits)

text \<open>
  Claim C6. When decoding and parsing the body of an intercepted station response, or
  taking the entries out of its payload, raises an exception, the exception is caught:
  the station mapping after all responses is the one obtained without that response, the
  error log gets exactly one warning for it, at its place between the warnings of the
  earlier and of the later responses, the outcome of the extraction is the one obtained
  without that response, and the later responses are processed from the state the
  earlier ones left, as they are after any response.
\<close>

theorem bad_response_is_skipped:
  assumes "is_station_response r"
    and "response_entries c (body r) = Inl e"
  shows "fst (scan_requests c (rs1 @ r # rs2) (d, lg)) = fst (scan_requests c (rs1 @ rs2) (d, lg)) \<and>
         snd (scan_requests c (rs1 @ r # rs2) (d, lg)) =
           snd (scan_requests c rs1 (d, lg)) @ LogParseError e #
           snd (scan_requests c rs2 (fst (scan_requests c rs1 (d, lg)), [])) \<and>
         fst (extract_station_data c (rs1 @ r # rs2) lg) =
           fst (extract_station_data c (rs1 @ rs2) lg) \<and>
         scan_requests c (rs1 @ r # rs2) (d, lg) =
           scan_requests c rs2 (scan_requests c (rs1 @ [r]) (d, lg))"
proof -
  have k: "scan_requests c (rs1 @ r # rs2) (d, lg) =
           scan_requests c rs2 (scan_requests c (rs1 @ [r]) (d, lg))"
    using scan_requests_append [of c "rs1 @ [r]" rs2 "(d, lg)"] by simp
  note f = scan_requests_bad(1) [OF assms, of rs1 rs2 d lg]
  note g = scan_requests_bad(2) [OF assms, of rs1 rs2 d lg]
  have h: "fst (extract_station_data c (rs1 @ r # rs2) lg) =
           fst (extract_station_data c (rs1 @ rs2) lg)"
    unfolding fst_extract_station_data scan_requests_bad(1) [OF assms, of rs1 rs2 "[]" lg]
    by (rule refl)
  from f g h k show ?thesis by (intro conjI)
qed

lemma stages_ignore_email:
  "setup_driver (env\<lparr>email_configured := b, email_dispatch := x\<rparr>) = setup_driver env"
  "scrape_evcs_data c (env\<lparr>email_configured := b, email_dispatch := x\<rparr>) = scrape_evcs_data c env"
  "save_json_data (env\<lparr>email_configured := b, email_dispatch := x\<rparr>) = save_json_data env"
  "process_and_export_data cs (env\<lparr>email_configured := b, email_dispatch := x\<rparr>) =
     process_and_export_data cs env"
  by ((rule ext)+,
      simp add: setup_driver_def scrape_evcs_data_def save_json_data_def
        process_and_export_data_def
        cong: option.case_cong sum.case_cong if_cong)+

lemma pipeline_ignores_email:
  "pipeline cs c (env\<lparr>email_configured := b, email_dispatch := x\<rparr>) s = pipeline cs c env s"
  unfolding pipeline_def stages_ignore_email by (rule refl)

lemma fst_run:
  "fst (run cs c env) = (if scrape_and_export_ok cs c env then 0 else 1)"
  by (simp add: run_def scrape_and_export_ok_def split: prod.splits sum.splits)

lemma error_log_cleanup [simp]: "error_log (cleanup s) = error_log s"
  by (simp add: cleanup_def)

lemma run_log_api:
  "email_configured env \<Longrightarrow> email_dispatch env = ApiException \<Longrightarrow>
   error_log (snd (run cs c env)) =
     error_log (snd (pipeline cs c env initial_state)) @ [LogSendinBlueApiError]"
  by (simp add: run_def send_email_notification_def split: prod.splits sum.splits)

lemma run_log_other:
  "email_configured env \<Longrightarrow> email_dispatch env = OtherException \<Longrightarrow>
   error_log (snd (run cs c env)) =
     error_log (snd (pipeline cs c env initial_state)) @ [LogEmailError]"
  by (simp add: run_def send_email_notification_def split: prod.splits sum.splits)

text \<open>
  Claim C8. The exit code of a run does not depend on whether the notification is
  configured nor on how its dispatch ends: it is 0 exactly when scraping and export
  succeeded and 1 otherwise. An exception raised by the dispatch, from the API or any
  other, is caught and adds one entry to the error log.
\<close>

theorem notification_never_changes_exit:
  "fst (run cs c (env\<lparr>email_configured := b, email_dispatch := x\<rparr>)) = fst (run cs c env) \<and>
   fst (run cs c env) = (if scrape_and_export_ok cs c env then 0 else 1) \<and>
   (email_configured env \<and> email_dispatch env = ApiException \<longrightarrow>
      error_log (snd (run cs c env)) =
        error_log (snd (pipeline cs c env initial_state)) @ [LogSendinBlueApiError]) \<and>
   (email_configured env \<and> email_dispatch env = OtherException \<longrightarrow>
      error_log (snd (run cs c env)) =
        error_log (snd (pipeline cs c env initial_state)) @ [LogEmailError])"
proof (intro conjI impI)
  have "scrape_and_export_ok cs c (env\<lparr>email_configured := b, email_dispatch := x\<rparr>) =
        scrape_and_export_ok cs c env"
    by (simp add: scrape_and_export_ok_def pipeline_ignores_email)
  then show "fst (run cs c (env\<lparr>email_configured := b, email_dispatch := x\<rparr>)) = fst (run cs c env)"
    by (simp only: fst_run)
  show "fst (run cs c env) = (if scrape_and_export_ok cs c env then 0 else 1)"
    by (rule fst_run)
next
  assume h: "email_configured env \<and> email_dispatch env = ApiException"
  show "error_log (snd (run cs c env)) =
        error_log (snd (pipeline cs c env initial_state)) @ [LogSendinBlueApiError]"
    by (rule run_log_api [OF h [THEN conjunct1] h [THEN conjunct2]])
next
  assume h: "email_configured env \<and> email_dispatch env = OtherException"
  show "error_log (snd (run cs c env)) =
        error_log (snd (pipeline cs c env initial_state)) @ [LogEmailError]"
    by (rule run_log_other [OF h [THEN conjunct1] h [THEN conjunct2]])
qed

text \<open>
  Claim C7. When the driver starts, the page loads, a CSRF token is found and the station
  mapping is empty after all responses are processed, the extraction raises the no-data
  error, the stages of the run fail with it, the run exits with code 1, leaves no output
  file and releases the driver; the failure notification, when it is configured and its
  dispatch goes through, carries this error and the accumulated log.
\<close>

theorem no_stations_is_fatal:
  assumes "driver_init env = None" and "page_load env = None" and "csrf_token_found env"
    and "fst (scan_requests c (requests env) ([], [])) = []"
  shows "fst (extract_station_data c (requests env) []) = Inl NoStationData \<and>
         fst (pipeline cs c env initial_state) = Inl NoStationData \<and>
         fst (run cs c env) = 1 \<and>
         output_files (snd (run cs c env)) = [] \<and>
         driver_open (snd (run cs c env)) = False \<and>
         (email_configured env \<and> email_dispatch env = Dispatched \<longrightarrow>
            delivered (snd (run cs c env)) =
              [FailureMail (Some NoStationData)
                 (snd (scan_requests c (requests env) ([], [])) @ [LogNoStationData]) []])"
proof -
  obtain lg where s: "scan_requests c (requests env) ([], []) = ([], lg)"
    using assms(4) by (cases "scan_requests c (requests env) ([], [])") simp
  have x: "extract_station_data c (requests env) [] = (Inl NoStationData, lg @ [LogNoStationData])"
    by (simp add: extract_station_data_def s)
  have p: "pipeline cs c env initial_state =
     (Inl NoStationData,
      \<lparr>error_log = lg @ [LogNoStationData], output_files = [], driver_open = True,
       delivered = []\<rparr>)"
    using assms(1,2,3)
    by (simp add: pipeline_def setup_driver_def scrape_evcs_data_def initial_state_def x)
  have r: "run cs c env =
     (1, cleanup (send_email_notification env False 0 0 (Some NoStationData)
        \<lparr>error_log = lg @ [LogNoStationData], output_files = [], driver_open = True,
         delivered = []\<rparr>))"
    by (simp add: run_def p)
  have a: "fst (extract_station_data c (requests env) []) = Inl NoStationData"
    by (simp add: x)
  have b: "fst (pipeline cs c env initial_state) = Inl NoStationData"
    by (simp add: p)
  have c1: "fst (run cs c env) = 1"
    by (simp add: r)
  have c2: "output_files (snd (run cs c env)) = []"
    by (simp add: r cleanup_def send_email_notification_def split: dispatch_outcome.splits)
  have c3: "driver_open (snd (run cs c env)) = False"
    by (simp add: r cleanup_def send_email_notification_def split: dispatch_outcome.splits)
  have c4: "email_configured env \<and> email_dispatch env = Dispatched \<longrightarrow>
            delivered (snd (run cs c env)) =
              [FailureMail (Some NoStationData)
                 (snd (scan_requests c (requests env) ([], [])) @ [LogNoStationData]) []]"
    by (simp add: r s cleanup_def send_email_notification_def)
  from a b c1 c2 c3 c4 show ?thesis by (intro conjI)
qed


theorem notification_never_changes_exit_witness:
  "fst (run no_container_str toy_codec env_mail_fails) = 0 \<and>
   scrape_and_export_ok no_container_str toy_codec env_mail_fails \<and>
   email_configured env_mail_fails \<and> email_dispatch env_mail_fails = ApiException \<and>
   error_log (snd (run no_container_str toy_codec env_mail_fails)) =
     error_log (snd (pipeline no_container_str toy_codec env_mail_fails initial_state)) @
     [LogSendinBlueApiError] \<and>
   email_configured env_mail_breaks \<and> email_dispatch env_mail_breaks = OtherException \<and>
   error_log (snd (run no_container_str toy_codec env_mail_breaks)) =
     error_log (snd (pipeline no_container_str toy_codec env_mail_breaks initial_state)) @
     [LogEmailError] \<and>
   fst (run no_container_str toy_codec
          (env_mail_fails\<lparr>email_configured := False, email_dispatch := Dispatched\<rparr>)) = 0"
proof -
  have ok: "scrape_and_export_ok no_container_str toy_codec env_mail_fails"
    by code_simp
  have h1: "email_configured env_mail_fails" "email_dispatch env_mail_fails = ApiException"
    by (simp_all add: env_mail_fails_def)
  have h2: "email_configured env_mail_breaks" "email_dispatch env_mail_breaks = OtherException"
    by (simp_all add: env_mail_breaks_def)
  note t = notification_never_changes_exit
    [where cs = no_container_str and c = toy_codec and env = env_mail_fails and b = False
       and x = Dispatched]
  note u = notification_never_changes_exit
    [where cs = no_container_str and c = toy_codec and env = env_mail_breaks and b = False
       and x = Dispatched]
  have a: "fst (run no_container_str toy_codec env_mail_fails) = 0"
    using t ok by simp
  have b: "fst (run no_container_str toy_codec
          (env_mail_fails\<lparr>email_configured := False, email_dispatch := Dispatched\<rparr>)) = 0"
    using t a by simp
  have c: "error_log (snd (run no_container_str toy_codec env_mail_fails)) =
     error_log (snd (pipeline no_container_str toy_codec env_mail_fails initial_state)) @
     [LogSendinBlueApiError]"
    using t h1 by blast
  have d: "error_log (snd (run no_container_str toy_codec env_mail_breaks)) =
     error_log (snd (pipeline no_container_str toy_codec env_mail_breaks initial_state)) @
     [LogEmailError]"
    using u h2 by blast
  from a ok h1 c h2 d b show ?thesis by (intro conjI)
qed

theorem no_stations_is_fatal_witness:
  "driver_init env_no_data = None \<and> page_load env_no_data = None \<and>
   csrf_token_found env_no_data \<and>
   fst (scan_requests toy_codec (requests env_no_data) ([], [])) = [] \<and>
   email_configured env_no_data \<and> email_dispatch env_no_data = Dispatched \<and>
   fst (extract_station_data toy_codec (requests env_no_data) []) = Inl NoStationData \<and>
   fst (run no_container_str toy_codec env_no_data) = 1 \<and>
   output_files (snd (run no_container_str toy_codec env_no_data)) = [] \<and>
   delivered (snd (run no_container_str toy_codec env_no_data)) =
     [FailureMail (Some NoStationData) [LogParseError JSONDecodeError, LogNoStationData] []]"
proof -
  have h: "driver_init env_no_data = None" "page_load env_no_data = None"
    "csrf_token_found env_no_data"
    by (simp_all add: env_no_data_def)
  have h4: "fst (scan_requests toy_codec (requests env_no_data) ([], [])) = []"
    by code_simp
  have m: "email_configured env_no_data" "email_dispatch env_no_data = Dispatched"
    by (simp_all add: env_no_data_def)
  have l: "snd (scan_requests toy_codec (requests env_no_data) ([], [])) =
     [LogParseError JSONDecodeError]"
    by code_simp
  note t = no_stations_is_fatal [OF h h4, of no_container_str]
  have a: "fst (extract_station_data toy_codec (requests env_no_data) []) = Inl NoStationData"
    using t by (rule conjunct1)
  have b: "fst (run no_container_str toy_codec env_no_data) = 1"
    using t by blast
  have c: "output_files (snd (run no_container_str toy_codec env_no_data)) = []"
    using t by blast
  have "delivered (snd (run no_container_str toy_codec env_no_data)) =
     [FailureMail (Some NoStationData)
        (snd (scan_requests toy_codec (requests env_no_data) ([], [])) @ [LogNoStationData]) []]"
    using t m by blast
  then have d: "delivered (snd (run no_container_str toy_codec env_no_data)) =
     [FailureMail (Some NoStationData) [LogParseError JSONDecodeError, LogNoStationData] []]"
    by (simp add: l)
  from h h4 m a b c d show ?thesis by (intro conjI)
qed

theorem bad_response_is_skipped_witness:
  "is_station_response bad_request \<and>
   response_entries toy_codec (body bad_request) = Inl JSONDecodeError \<and>
   fst (scan_requests toy_codec ([good_request] @ bad_request # [good_request]) ([], [])) =
     fst (scan_requests toy_codec ([good_request] @ [good_request]) ([], [])) \<and>
   snd (scan_requests toy_codec ([good_request] @ bad_request # [good_request]) ([], [])) =
     [LogParseError JSONDecodeError] \<and>
   fst (extract_station_data toy_codec ([good_request] @ bad_request # [good_request]) []) =
     fst (extract_station_data toy_codec ([good_request] @ [good_request]) []) \<and>
   is_station_response odd_request \<and>
   response_entries toy_codec (body odd_request) = Inl TypeError \<and>
   fst (extract_station_data toy_codec ([] @ odd_request # [good_request]) []) =
     Inr [station_full]"
proof -
  have h1: "is_station_response bad_request"
    by code_simp
  have h2: "response_entries toy_codec (body bad_request) = Inl JSONDecodeError"
    by code_simp
  have l1: "snd (scan_requests toy_codec [good_request] ([], [])) = []"
    by code_simp
  have l2: "snd (scan_requests toy_codec [good_request]
               (fst (scan_requests toy_codec [good_request] ([], [])), [])) = []"
    by code_simp
  note t = bad_response_is_skipped [OF h1 h2, of "[good_request]" "[good_request]" "[]" "[]"]
  have a: "fst (scan_requests toy_codec ([good_request] @ bad_request # [good_request]) ([], [])) =
     fst (scan_requests toy_codec ([good_request] @ [good_request]) ([], []))"
    using t by (rule conjunct1)
  have "snd (scan_requests toy_codec ([good_request] @ bad_request # [good_request]) ([], [])) =
     snd (scan_requests toy_codec [good_request] ([], [])) @ LogParseError JSONDecodeError #
     snd (scan_requests toy_codec [good_request]
            (fst (scan_requests toy_codec [good_request] ([], [])), []))"
    using t by (rule conjunct2 [THEN conjunct1])
  then have b: "snd (scan_requests toy_codec ([good_request] @ bad_request # [good_request]) ([], [])) =
     [LogParseError JSONDecodeError]"
    unfolding l1 l2 by simp
  have c: "fst (extract_station_data toy_codec ([good_request] @ bad_request # [good_request]) []) =
     fst (extract_station_data toy_codec ([good_request] @ [good_request]) [])"
    using t by (rule conjunct2 [THEN conjunct2, THEN conjunct1])
  have k1: "is_station_response odd_request"
    by code_simp
  have k2: "response_entries toy_codec (body odd_request) = Inl TypeError"
    by code_simp
  have k3: "fst (extract_station_data toy_codec ([] @ [good_request]) []) = Inr [station_full]"
    by code_simp
  note u = bad_response_is_skipped [OF k1 k2, of "[]" "[good_request]" "[]" "[]"]
  have "fst (extract_station_data toy_codec ([] @ odd_request # [good_request]) []) =
     fst (extract_station_data toy_codec ([] @ [good_request]) [])"
    using u by (rule conjunct2 [THEN conjunct2, THEN conjunct1])
  then have d: "fst (extract_station_data toy_codec ([] @ odd_request # [good_request]) []) =
     Inr [station_full]"
    by (simp only: k3)
  from h1 h2 a b c k1 k2 d show ?thesis by (intro conjI)
qed

end
